theory Spec2Isabelle
  imports
    Main
    "HOL-Library.Word"
    "HOL-Library.Char_ord"
    "HOL-Library.List_Lexorder"
    "HOL-Library.Multiset"
begin

unbundle bit_operations_syntax

section \<open>JA4 fingerprinting of a TLS ClientHello (src/util.js, src/main.js)\<close>

text \<open>
  A shallow embedding of the EdgeWorker that computes the JA4 fingerprint.
  JavaScript numbers that hold offsets, lengths and 16-bit wire values are natural numbers;
  the \<^verbatim>\<open>Uint8Array\<close> is a list of bytes; JavaScript strings are lists of
  characters (all strings the program builds are ASCII); a thrown exception is the left
  summand of a result.  The \<^verbatim>\<open>logger\<close> calls only write to the platform log and
  are left out.
\<close>

subsection \<open>Errors and results\<close>

type_synonym byte = "8 word"

text \<open>
  \<^verbatim>\<open>RangeError\<close>: a \<^verbatim>\<open>DataView\<close> accessor was called with an offset outside
  the buffer.  \<^verbatim>\<open>InvalidCharacterError\<close>: what \<^verbatim>\<open>atob\<close> raises on text that
  is not base64.  \<^verbatim>\<open>OperationError\<close>: a rejected \<^verbatim>\<open>crypto.subtle.digest\<close>.
\<close>

datatype error = RangeError | InvalidCharacterError | OperationError

fun bindE :: "error + 'a \<Rightarrow> ('a \<Rightarrow> error + 'b) \<Rightarrow> error + 'b" where
  "bindE (Inl e) f = Inl e"
| "bindE (Inr x) f = f x"

subsection \<open>DataView accessors\<close>

text \<open>
  \<^verbatim>\<open>dataView.getUint8(i)\<close> and \<^verbatim>\<open>dataView.getUint16(i)\<close> (big-endian) throw a
  RangeError when the bytes to read do not lie inside the buffer.
\<close>

definition getUint8 :: "byte list \<Rightarrow> nat \<Rightarrow> error + nat" where
  "getUint8 buf i = (if i < length buf then Inr (unat (buf ! i)) else Inl RangeError)"

definition getUint16 :: "byte list \<Rightarrow> nat \<Rightarrow> error + nat" where
  "getUint16 buf i =
     (if i + 2 \<le> length buf then Inr (unat (buf ! i) * 256 + unat (buf ! (i + 1)))
      else Inl RangeError)"

subsection \<open>Number and string helpers of the JavaScript library\<close>

definition hexDigit :: "nat \<Rightarrow> char" where
  "hexDigit d = ''0123456789abcdef'' ! d"

text \<open>\<^verbatim>\<open>n.toString(16)\<close>\<close>

fun toString16 :: "nat \<Rightarrow> string" where
  "toString16 n = (if n < 16 then [hexDigit n] else toString16 (n div 16) @ [hexDigit (n mod 16)])"

declare toString16.simps [simp del]

text \<open>\<^verbatim>\<open>n.toString()\<close>\<close>

fun toString10 :: "nat \<Rightarrow> string" where
  "toString10 n = (if n < 10 then [hexDigit n] else toString10 (n div 10) @ [hexDigit (n mod 10)])"

declare toString10.simps [simp del]

text \<open>\<^verbatim>\<open>s.padStart(n, c)\<close> for a one-character pad string: never shortens \<open>s\<close>.\<close>

definition padStart :: "nat \<Rightarrow> char \<Rightarrow> string \<Rightarrow> string" where
  "padStart n c s = replicate (n - length s) c @ s"

text \<open>\<^verbatim>\<open>v.toString(16).padStart(4, '0')\<close>, used for ciphers, extensions, algorithms and versions.\<close>

definition hex4 :: "nat \<Rightarrow> string" where
  "hex4 v = padStart 4 CHR ''0'' (toString16 v)"

text \<open>\<^verbatim>\<open>xs.join(sep)\<close>\<close>

fun join :: "string \<Rightarrow> string list \<Rightarrow> string" where
  "join sep [] = []"
| "join sep [x] = x"
| "join sep (x # y # ys) = x @ sep @ join sep (y # ys)"

text \<open>\<^verbatim>\<open>String.fromCharCode(c)\<close> for a byte.\<close>

definition fromCharCode :: "nat \<Rightarrow> char" where
  "fromCharCode c = char_of c"

subsection \<open>Constant tables (util.js, lines 9-23)\<close>

definition TLS_MAPPER :: "string \<rightharpoonup> string" where
  "TLS_MAPPER = map_of [
     (''0x0002'', ''s2''),
     (''0x0300'', ''s3''),
     (''0x0301'', ''10''),
     (''0x0302'', ''11''),
     (''0x0303'', ''12''),
     (''0x0304'', ''13'')]"

text \<open>\<^verbatim>\<open>TLS_MAPPER[key] || '00'\<close>\<close>

definition mapVersion :: "string \<Rightarrow> string" where
  "mapVersion key = (case TLS_MAPPER key of Some code \<Rightarrow> code | None \<Rightarrow> ''00'')"

definition GREASE_VALUES :: "nat set" where
  "GREASE_VALUES = {
     0x0a0a, 0x1a1a, 0x2a2a, 0x3a3a, 0x4a4a, 0x5a5a, 0x6a6a,
     0x7a7a, 0x8a8a, 0x9a9a, 0xaaaa, 0xbaba, 0xcaca, 0xdada,
     0xeaea, 0xfafa}"

subsection \<open>isPrintableAscii (util.js, lines 58-60)\<close>

definition isPrintableAscii :: "nat \<Rightarrow> bool" where
  "isPrintableAscii charCode \<longleftrightarrow> charCode \<ge> 0x20 \<and> charCode \<le> 0x7E"

subsection \<open>truncatedHash (util.js, lines 45-51)\<close>

text \<open>
  \<^verbatim>\<open>new TextEncoder().encode(data)\<close>: UTF-8.  A character below 128 is one byte,
  one of the range 128 to 255 is two.
\<close>

definition utf8 :: "string \<Rightarrow> byte list" where
  "utf8 s = concat (map (\<lambda>c. let n = (of_char c :: nat) in
      if n < 128 then [of_nat n]
      else [of_nat (192 + n div 64), of_nat (128 + n mod 64)]) s)"

text \<open>
  The digest \<^verbatim>\<open>crypto.subtle.digest('SHA-256', _)\<close> belongs to the platform and is a
  parameter \<open>digest\<close> of everything that hashes.
\<close>

definition truncatedHash :: "(byte list \<Rightarrow> error + byte list) \<Rightarrow> string \<Rightarrow> error + string" where
  "truncatedHash digest data =
     bindE (digest (utf8 data)) (\<lambda>hashArray.
       Inr (take 12 (concat (map (\<lambda>b. padStart 2 CHR ''0'' (toString16 (unat b))) hashArray))))"

subsection \<open>The parser: getJA4Fingerprint, lines 72-159\<close>

text \<open>The local variables of \<^verbatim>\<open>getJA4Fingerprint\<close> that the parser fills.\<close>

record hello =
  tlsMappedVersion :: string
  cipherSuites :: "string list"
  extensionsList :: "string list"
  sni :: string
  alpn :: string
  signatureAlgorithms :: "string list"
  supportedVersions :: "nat list"

text \<open>
  The three loops \<^verbatim>\<open>for (let i = 0; i < len; i += 2)\<close> (lines 87-92, 142-147, 150-155)
  have one shape: read the 16-bit value at \<open>start + i\<close>, and push \<open>f\<close> of it unless it is
  a GREASE value.  \<open>f\<close> is \<open>hex4\<close> for cipher suites and signature algorithms and the
  identity for supported versions.
\<close>

function greaseLoop ::
  "(nat \<Rightarrow> 'a) \<Rightarrow> byte list \<Rightarrow> nat \<Rightarrow> nat \<Rightarrow> nat \<Rightarrow> 'a list \<Rightarrow> error + 'a list" where
  "greaseLoop f buf start len i acc =
     (if i < len then
        (case getUint16 buf (start + i) of
           Inl e \<Rightarrow> Inl e
         | Inr v \<Rightarrow>
             greaseLoop f buf start len (i + 2)
               (if v \<notin> GREASE_VALUES then acc @ [f v] else acc))
      else Inr acc)"
  by pat_completeness auto
termination
  by (relation "measure (\<lambda>(f, buf, start, len, i, acc). len - i)") auto

declare greaseLoop.simps [simp del]

text \<open>The ALPN branch, lines 121-139; \<open>alpn0\<close> is the value of \<^verbatim>\<open>alpn\<close> before it.\<close>

definition alpnExtension :: "byte list \<Rightarrow> nat \<Rightarrow> string \<Rightarrow> error + string" where
  "alpnExtension buf currentIndex alpn0 =
     bindE (getUint16 buf currentIndex) (\<lambda>alpnListLength.
       let alpnOffset = currentIndex + 2;
           alpnEndOffset = alpnOffset + alpnListLength
       in if alpnOffset < alpnEndOffset then
            bindE (getUint8 buf alpnOffset) (\<lambda>protocolLength.
              let alpnOffset = alpnOffset + 1
              in if protocolLength > 0 then
                   bindE (getUint8 buf alpnOffset) (\<lambda>firstChar.
                   bindE (getUint8 buf (alpnOffset + protocolLength - 1)) (\<lambda>lastChar.
                     if isPrintableAscii firstChar \<and> isPrintableAscii lastChar then
                       Inr [fromCharCode firstChar, fromCharCode lastChar]
                     else
                       Inr (toString16 (drop_bit 4 firstChar AND 0x0F)
                            @ toString16 (lastChar AND 0x0F))))
                 else Inr alpn0)
          else Inr alpn0)"

text \<open>The body of the extension loop after the header is read, lines 114-157.\<close>

definition processExtension :: "byte list \<Rightarrow> nat \<Rightarrow> nat \<Rightarrow> hello \<Rightarrow> error + hello" where
  "processExtension buf currentIndex extType st =
     (if extType \<notin> GREASE_VALUES then
        let st = st\<lparr>extensionsList := extensionsList st @ [hex4 extType]\<rparr>
        in if extType = 0x0000 then
             Inr (st\<lparr>sni := ''d''\<rparr>)
           else if extType = 0x0010 then
             bindE (alpnExtension buf currentIndex (alpn st)) (\<lambda>a. Inr (st\<lparr>alpn := a\<rparr>))
           else if extType = 0x002b then
             bindE (getUint8 buf currentIndex) (\<lambda>supportedVersionsLength.
             bindE (greaseLoop (\<lambda>version. version) buf (currentIndex + 1)
                      supportedVersionsLength 0 (supportedVersions st)) (\<lambda>vs.
               Inr (st\<lparr>supportedVersions := vs\<rparr>)))
           else if extType = 0x000d then
             bindE (getUint16 buf currentIndex) (\<lambda>sigAlgLength.
             bindE (greaseLoop hex4 buf (currentIndex + 2)
                      sigAlgLength 0 (signatureAlgorithms st)) (\<lambda>algs.
               Inr (st\<lparr>signatureAlgorithms := algs\<rparr>)))
           else Inr st
      else Inr st)"

text \<open>The loop \<^verbatim>\<open>while (currentIndex < extensionsEndIndex)\<close>, lines 109-159.\<close>

function extensionsLoop :: "byte list \<Rightarrow> nat \<Rightarrow> nat \<Rightarrow> hello \<Rightarrow> error + hello" where
  "extensionsLoop buf extensionsEndIndex currentIndex st =
     (if currentIndex < extensionsEndIndex then
        (case getUint16 buf currentIndex of
           Inl e \<Rightarrow> Inl e
         | Inr extType \<Rightarrow>
            (case getUint16 buf (currentIndex + 2) of
               Inl e \<Rightarrow> Inl e
             | Inr extLength \<Rightarrow>
                (case processExtension buf (currentIndex + 4) extType st of
                   Inl e \<Rightarrow> Inl e
                 | Inr st' \<Rightarrow>
                     extensionsLoop buf extensionsEndIndex (currentIndex + 4 + extLength) st')))
      else Inr st)"
  by pat_completeness auto
termination
  by (relation "measure (\<lambda>(buf, extensionsEndIndex, currentIndex, st).
        extensionsEndIndex - currentIndex)") auto

declare extensionsLoop.simps [simp del]

text \<open>Lines 72-159: the walk over the buffer up to the end of the extensions.\<close>

definition parseClientHello :: "byte list \<Rightarrow> error + hello" where
  "parseClientHello buf =
     (let currentIndex = 4 in
      bindE (getUint16 buf currentIndex) (\<lambda>v.
      let tlsVersion = ''0x'' @ hex4 v;
          tlsMappedVersion0 = mapVersion tlsVersion;
          currentIndex = currentIndex + 34 in
      bindE (getUint8 buf currentIndex) (\<lambda>sessionIDLength.
      let currentIndex = currentIndex + 1 + sessionIDLength in
      bindE (getUint16 buf currentIndex) (\<lambda>cipherSuitesLength.
      let currentIndex = currentIndex + 2 in
      bindE (greaseLoop hex4 buf currentIndex cipherSuitesLength 0 []) (\<lambda>cipherSuites0.
      let currentIndex = currentIndex + cipherSuitesLength in
      bindE (getUint8 buf currentIndex) (\<lambda>compressionMethodsLength.
      let currentIndex = currentIndex + 1 + compressionMethodsLength in
      bindE (getUint16 buf currentIndex) (\<lambda>extensionsLength.
      let currentIndex = currentIndex + 2;
          extensionsEndIndex = currentIndex + extensionsLength in
      extensionsLoop buf extensionsEndIndex currentIndex
        \<lparr>tlsMappedVersion = tlsMappedVersion0,
         cipherSuites = cipherSuites0,
         extensionsList = [],
         sni = ''i'',
         alpn = ''00'',
         signatureAlgorithms = [],
         supportedVersions = []\<rparr>)))))))"

subsection \<open>The encoder: getJA4Fingerprint, lines 161-188\<close>

text \<open>
  The source is one function; here its second half is a function of the variables the
  parser has filled, and each local constant of the source is a definition of the same name.
  The variants \<^verbatim>\<open>JA4_o\<close> and \<^verbatim>\<open>JA4_ro\<close> are only logged, and only when
  \<^verbatim>\<open>DEBUG_MODE\<close> is set, which it is not.
\<close>

text \<open>\<^verbatim>\<open>vs.sort((a, b) => b - a)\<close>: numerically descending.\<close>

definition sortDescending :: "nat list \<Rightarrow> nat list" where
  "sortDescending vs = rev (sort vs)"

text \<open>Lines 161-165: the version code that goes into the fingerprint.\<close>

definition versionCode :: "hello \<Rightarrow> string" where
  "versionCode st =
     (if length (supportedVersions st) > 0 then
        let highestSupportedVersion = ''0x'' @ hex4 (hd (sortDescending (supportedVersions st)))
        in mapVersion highestSupportedVersion
      else tlsMappedVersion st)"

definition numCiphers :: "hello \<Rightarrow> string" where
  "numCiphers st = padStart 2 CHR ''0'' (toString10 (length (cipherSuites st)))"

definition numExtensions :: "hello \<Rightarrow> string" where
  "numExtensions st = padStart 2 CHR ''0'' (toString10 (length (extensionsList st)))"

text \<open>
  \<^verbatim>\<open>cipherSuites.sort()\<close> has no comparator: the elements are compared as strings,
  code unit by code unit, which is the lexicographic order of character lists.
\<close>

definition cipherSuitesString :: "hello \<Rightarrow> string" where
  "cipherSuitesString st = join '','' (sort (cipherSuites st))"

definition hashExtensions :: "hello \<Rightarrow> string list" where
  "hashExtensions st =
     sort (filter (\<lambda>ext. ext \<noteq> ''0000'' \<and> ext \<noteq> ''0010'') (extensionsList st))"

definition extensionHashInput :: "hello \<Rightarrow> string" where
  "extensionHashInput st =
     (let extensionHashInput = join '','' (hashExtensions st)
      in if length (signatureAlgorithms st) > 0 then
           extensionHashInput @ ''_'' @ join '','' (signatureAlgorithms st)
         else extensionHashInput)"

definition ja4CipherHash :: "(byte list \<Rightarrow> error + byte list) \<Rightarrow> hello \<Rightarrow> error + string" where
  "ja4CipherHash digest st = truncatedHash digest (cipherSuitesString st)"

definition ja4ExtensionHash :: "(byte list \<Rightarrow> error + byte list) \<Rightarrow> hello \<Rightarrow> error + string" where
  "ja4ExtensionHash digest st = truncatedHash digest (extensionHashInput st)"

definition ptype :: "string \<Rightarrow> string" where
  "ptype proto = (if proto = ''quic'' then ''q'' else ''t'')"

definition ja4Base :: "string \<Rightarrow> hello \<Rightarrow> string" where
  "ja4Base proto st =
     ptype proto @ versionCode st @ sni st @ numCiphers st @ numExtensions st @ alpn st"

definition encodeJA4 ::
  "(byte list \<Rightarrow> error + byte list) \<Rightarrow> string \<Rightarrow> hello \<Rightarrow> error + string" where
  "encodeJA4 digest proto st =
     bindE (ja4CipherHash digest st) (\<lambda>b.
     bindE (ja4ExtensionHash digest st) (\<lambda>c.
       Inr (ja4Base proto st @ ''_'' @ b @ ''_'' @ c)))"

text \<open>
  The whole function.  Its \<^verbatim>\<open>catch\<close> logs and throws the error again, so an error
  of the parser or of the digest is the error of the call.
\<close>

definition getJA4Fingerprint ::
  "(byte list \<Rightarrow> error + byte list) \<Rightarrow> byte list \<Rightarrow> string \<Rightarrow> error + string" where
  "getJA4Fingerprint digest buffer proto =
     bindE (parseClientHello buffer) (encodeJA4 digest proto)"

subsection \<open>The orchestrator: base64toUint8Array (util.js, lines 30-38) and onClientRequest (main.js)\<close>

text \<open>
  \<^verbatim>\<open>atob\<close> belongs to the platform and is a parameter.  Its result is a binary string,
  one character per byte.
\<close>

definition base64toUint8Array :: "(string \<Rightarrow> error + string) \<Rightarrow> string \<Rightarrow> error + byte list" where
  "base64toUint8Array atob base64_string =
     bindE (atob base64_string) (\<lambda>binary_string. Inr (map of_char binary_string))"

text \<open>The request is its table of variables; a variable that is not set reads as \<^verbatim>\<open>undefined\<close>.\<close>

type_synonym request = "string \<rightharpoonup> string"

definition getVariable :: "request \<Rightarrow> string \<Rightarrow> string option" where
  "getVariable request name = request name"

definition setVariable :: "request \<Rightarrow> string \<Rightarrow> string \<Rightarrow> request" where
  "setVariable request name v = request(name \<mapsto> v)"

text \<open>JavaScript truthiness of a string or \<^verbatim>\<open>undefined\<close>.\<close>

definition truthy :: "string option \<Rightarrow> bool" where
  "truthy v = (case v of None \<Rightarrow> False | Some s \<Rightarrow> s \<noteq> [])"

text \<open>
  The outcome of the asynchronous function: \<open>Inl e\<close> is a promise rejected with \<open>e\<close>,
  \<open>Inr None\<close> one resolved with \<^verbatim>\<open>undefined\<close>, \<open>Inr (Some fp)\<close> one resolved with the
  fingerprint; the second component is the request afterwards.  The decoding (line 25) is
  outside the \<^verbatim>\<open>try\<close>, the fingerprinting (lines 31-40) inside.
\<close>

definition onClientRequest ::
  "(string \<Rightarrow> error + string) \<Rightarrow> (byte list \<Rightarrow> error + byte list) \<Rightarrow> request
     \<Rightarrow> (error + string option) \<times> request" where
  "onClientRequest atob digest request =
     (let client_hello = getVariable request ''PMUSER_TLS_CLIENT_HELLO''
      in if \<not> truthy client_hello then (Inr None, request)
         else
           (case base64toUint8Array atob (case client_hello of Some s \<Rightarrow> s | None \<Rightarrow> []) of
              Inl e \<Rightarrow> (Inl e, request)
            | Inr buffer \<Rightarrow>
                let quic_version = getVariable request ''PMUSER_QUIC_VERSION'';
                    proto = (if truthy quic_version then ''quic'' else ''tcp'')
                in (case getJA4Fingerprint digest buffer proto of
                      Inr JA4_fingerprint \<Rightarrow>
                        (Inr (Some JA4_fingerprint),
                         setVariable request ''PMUSER_JA4_FINGERPRINT'' JA4_fingerprint)
                    | Inl error \<Rightarrow> (Inr None, request))))"

subsection \<open>The platform functions, after their standards\<close>

text \<open>
  To run the program on concrete inputs the two platform functions are given here as their
  standards define them: SHA-256 (FIPS 180-4) and the base64 decoding of \<^verbatim>\<open>atob\<close>.
\<close>

type_synonym u32 = "32 word"

definition ch :: "u32 \<Rightarrow> u32 \<Rightarrow> u32 \<Rightarrow> u32" where
  "ch x y z = (x AND y) XOR (NOT x AND z)"

definition maj :: "u32 \<Rightarrow> u32 \<Rightarrow> u32 \<Rightarrow> u32" where
  "maj x y z = (x AND y) XOR (x AND z) XOR (y AND z)"

definition bsig0 :: "u32 \<Rightarrow> u32" where
  "bsig0 x = word_rotr 2 x XOR word_rotr 13 x XOR word_rotr 22 x"

definition bsig1 :: "u32 \<Rightarrow> u32" where
  "bsig1 x = word_rotr 6 x XOR word_rotr 11 x XOR word_rotr 25 x"

definition ssig0 :: "u32 \<Rightarrow> u32" where
  "ssig0 x = word_rotr 7 x XOR word_rotr 18 x XOR drop_bit 3 x"

definition ssig1 :: "u32 \<Rightarrow> u32" where
  "ssig1 x = word_rotr 17 x XOR word_rotr 19 x XOR drop_bit 10 x"

text \<open>The round constants, eight to a row as the standard prints them.\<close>

definition K256 :: "u32 list" where
  "K256 =
     [0x428a2f98, 0x71374491, 0xb5c0fbcf, 0xe9b5dba5, 0x3956c25b, 0x59f111f1, 0x923f82a4, 0xab1c5ed5]
   @ [0xd807aa98, 0x12835b01, 0x243185be, 0x550c7dc3, 0x72be5d74, 0x80deb1fe, 0x9bdc06a7, 0xc19bf174]
   @ [0xe49b69c1, 0xefbe4786, 0x0fc19dc6, 0x240ca1cc, 0x2de92c6f, 0x4a7484aa, 0x5cb0a9dc, 0x76f988da]
   @ [0x983e5152, 0xa831c66d, 0xb00327c8, 0xbf597fc7, 0xc6e00bf3, 0xd5a79147, 0x06ca6351, 0x14292967]
   @ [0x27b70a85, 0x2e1b2138, 0x4d2c6dfc, 0x53380d13, 0x650a7354, 0x766a0abb, 0x81c2c92e, 0x92722c85]
   @ [0xa2bfe8a1, 0xa81a664b, 0xc24b8b70, 0xc76c51a3, 0xd192e819, 0xd6990624, 0xf40e3585, 0x106aa070]
   @ [0x19a4c116, 0x1e376c08, 0x2748774c, 0x34b0bcb5, 0x391c0cb3, 0x4ed8aa4a, 0x5b9cca4f, 0x682e6ff3]
   @ [0x748f82ee, 0x78a5636f, 0x84c87814, 0x8cc70208, 0x90befffa, 0xa4506ceb, 0xbef9a3f7, 0xc67178f2]"

type_synonym sha_state = "u32 \<times> u32 \<times> u32 \<times> u32 \<times> u32 \<times> u32 \<times> u32 \<times> u32"

definition H256 :: sha_state where
  "H256 = (0x6a09e667, 0xbb67ae85, 0x3c6ef372, 0xa54ff53a,
           0x510e527f, 0x9b05688c, 0x1f83d9ab, 0x5be0cd19)"

text \<open>The message schedule, newest word first: \<open>n\<close> more words after the ones in \<open>ws\<close>.\<close>

fun schedule :: "nat \<Rightarrow> u32 list \<Rightarrow> u32 list" where
  "schedule 0 ws = ws"
| "schedule (Suc n) ws =
     schedule n ((ssig1 (ws ! 1) + ws ! 6 + ssig0 (ws ! 14) + ws ! 15) # ws)"

text \<open>The 64 rounds over the working variables \<open>(a, b, c, d, e, f, g, h)\<close>.\<close>

fun rounds :: "u32 list \<Rightarrow> u32 list \<Rightarrow> sha_state \<Rightarrow> sha_state" where
  "rounds [] ws s = s"
| "rounds (k # ks) [] s = s"
| "rounds (k # ks) (w # ws) (a, b, c, d, e, f, g, h) =
     (let t1 = h + bsig1 e + ch e f g + k + w;
          t2 = bsig0 a + maj a b c
      in rounds ks ws (t1 + t2, a, b, c, d + t1, e, f, g))"

fun be32 :: "byte list \<Rightarrow> u32 list" where
  "be32 (a # b # c # d # bs) =
     (push_bit 24 (ucast a) OR push_bit 16 (ucast b) OR push_bit 8 (ucast c) OR ucast d) # be32 bs"
| "be32 _ = []"

definition add_state :: "sha_state \<Rightarrow> sha_state \<Rightarrow> sha_state" where
  "add_state s t =
     (case (s, t) of ((a, b, c, d, e, f, g, h), (a', b', c', d', e', f', g', h')) \<Rightarrow>
        (a + a', b + b', c + c', d + d', e + e', f + f', g + g', h + h'))"

definition compress :: "sha_state \<Rightarrow> byte list \<Rightarrow> sha_state" where
  "compress hs block =
     add_state hs (rounds K256 (rev (schedule 48 (rev (be32 block)))) hs)"

fun blocks :: "nat \<Rightarrow> sha_state \<Rightarrow> byte list \<Rightarrow> sha_state" where
  "blocks 0 hs bs = hs"
| "blocks (Suc n) hs bs = blocks n (compress hs (take 64 bs)) (drop 64 bs)"

definition len_bytes :: "nat \<Rightarrow> byte list" where
  "len_bytes n =
     (let l = (of_nat n * 8 :: 64 word) in map (\<lambda>i. ucast (drop_bit (56 - 8 * i) l)) [0..<8])"

definition sha_pad :: "byte list \<Rightarrow> byte list" where
  "sha_pad bs =
     bs @ [0x80] @ replicate ((119 - length bs mod 64) mod 64) 0 @ len_bytes (length bs)"

definition word_bytes :: "u32 \<Rightarrow> byte list" where
  "word_bytes w = map (\<lambda>i. ucast (drop_bit (24 - 8 * i) w)) [0..<4]"

definition sha256 :: "byte list \<Rightarrow> byte list" where
  "sha256 bs =
     (let p = sha_pad bs
      in case blocks (length p div 64) H256 p of (a, b, c, d, e, f, g, h) \<Rightarrow>
           concat (map word_bytes [a, b, c, d, e, f, g, h]))"

text \<open>\<^verbatim>\<open>crypto.subtle.digest('SHA-256', _)\<close> when the digest is available.\<close>

definition sha256_digest :: "byte list \<Rightarrow> error + byte list" where
  "sha256_digest bs = Inr (sha256 bs)"

text \<open>
  \<^verbatim>\<open>atob\<close>: white space is dropped, one or two \<^verbatim>\<open>=\<close> at the end of a text whose
  length is a multiple of 4 are dropped, and what is left must be base64 digits, not one more
  than a multiple of 4 of them.
\<close>

definition b64index :: "char \<Rightarrow> nat option" where
  "b64index c =
     (let n = (of_char c :: nat)
      in if 65 \<le> n \<and> n \<le> 90 then Some (n - 65)
         else if 97 \<le> n \<and> n \<le> 122 then Some (n - 71)
         else if 48 \<le> n \<and> n \<le> 57 then Some (n + 4)
         else if n = 43 then Some 62
         else if n = 47 then Some 63
         else None)"

fun b64decode :: "nat list \<Rightarrow> nat list" where
  "b64decode (a # b # c # d # r) =
     (a * 4 + b div 16) # (b mod 16 * 16 + c div 4) # (c mod 4 * 64 + d) # b64decode r"
| "b64decode [a, b, c] = [a * 4 + b div 16, b mod 16 * 16 + c div 4]"
| "b64decode [a, b] = [a * 4 + b div 16]"
| "b64decode _ = []"

definition stripPadding :: "string \<Rightarrow> string" where
  "stripPadding t =
     (if length t mod 4 = 0 \<and> t \<noteq> [] \<and> last t = CHR ''=''
      then (if butlast t \<noteq> [] \<and> last (butlast t) = CHR ''='' then butlast (butlast t)
            else butlast t)
      else t)"

definition atob_std :: "string \<Rightarrow> error + string" where
  "atob_std s =
     (let t = stripPadding (filter (\<lambda>c. (of_char c :: nat) \<notin> {9, 10, 12, 13, 32}) s)
      in if length t mod 4 = 1 then Inl InvalidCharacterError
         else (case those (map b64index t) of
                 None \<Rightarrow> Inl InvalidCharacterError
               | Some ds \<Rightarrow> Inr (map char_of (b64decode ds))))"

section \<open>The wire format, as the specification describes it\<close>

text \<open>
  The layout of a ClientHello after the 4-byte handshake header: a 2-byte version, 32 random
  bytes, the session id with a 1-byte length, the cipher suites with a 2-byte length, the
  compression methods with a 1-byte length, and the extensions with a 2-byte length.
  These functions only name offsets and values of the buffer; the theorems below relate
  them to what the parser computes.
\<close>

definition u16 :: "byte list \<Rightarrow> nat \<Rightarrow> nat" where
  "u16 buf i = unat (buf ! i) * 256 + unat (buf ! (i + 1))"

definition u8 :: "byte list \<Rightarrow> nat \<Rightarrow> nat" where
  "u8 buf i = unat (buf ! i)"

text \<open>The 16-bit values of a span of \<open>len\<close> bytes that starts at \<open>start\<close>, in wire order.\<close>

definition wireValues :: "byte list \<Rightarrow> nat \<Rightarrow> nat \<Rightarrow> nat list" where
  "wireValues buf start len = map (\<lambda>k. u16 buf (start + 2 * k)) [0..<(len + 1) div 2]"

definition greaseFiltered :: "nat list \<Rightarrow> nat list" where
  "greaseFiltered vs = filter (\<lambda>v. v \<notin> GREASE_VALUES) vs"

definition legacyVersion :: "byte list \<Rightarrow> nat" where
  "legacyVersion buf = u16 buf 4"

definition sessionIdLength :: "byte list \<Rightarrow> nat" where
  "sessionIdLength buf = u8 buf 38"

definition cipherSuitesLength :: "byte list \<Rightarrow> nat" where
  "cipherSuitesLength buf = u16 buf (39 + sessionIdLength buf)"

definition cipherSuitesStart :: "byte list \<Rightarrow> nat" where
  "cipherSuitesStart buf = 41 + sessionIdLength buf"

definition compressionMethodsLength :: "byte list \<Rightarrow> nat" where
  "compressionMethodsLength buf = u8 buf (cipherSuitesStart buf + cipherSuitesLength buf)"

definition extensionsLength :: "byte list \<Rightarrow> nat" where
  "extensionsLength buf =
     u16 buf (cipherSuitesStart buf + cipherSuitesLength buf + 1 + compressionMethodsLength buf)"

definition extensionsStart :: "byte list \<Rightarrow> nat" where
  "extensionsStart buf =
     cipherSuitesStart buf + cipherSuitesLength buf + 1 + compressionMethodsLength buf + 2"

definition extensionsEnd :: "byte list \<Rightarrow> nat" where
  "extensionsEnd buf = extensionsStart buf + extensionsLength buf"

text \<open>
  The offsets of the extension records between \<open>cur\<close> and \<open>end\<close>: a record is a 2-byte
  type, a 2-byte length and that many bytes of payload.
\<close>

function extensionRecords :: "byte list \<Rightarrow> nat \<Rightarrow> nat \<Rightarrow> nat list" where
  "extensionRecords buf end cur =
     (if cur < end then cur # extensionRecords buf end (cur + 4 + u16 buf (cur + 2)) else [])"
  by pat_completeness auto
termination
  by (relation "measure (\<lambda>(buf, end, cur). end - cur)") auto

declare extensionRecords.simps [simp del]

definition helloExtensions :: "byte list \<Rightarrow> nat list" where
  "helloExtensions buf = extensionRecords buf (extensionsEnd buf) (extensionsStart buf)"

text \<open>The records of one extension type, and the types of all records.\<close>

definition recordsOfType :: "byte list \<Rightarrow> nat \<Rightarrow> nat list \<Rightarrow> nat list" where
  "recordsOfType buf t recs = filter (\<lambda>r. u16 buf r = t) recs"

definition wireExtensionTypes :: "byte list \<Rightarrow> nat list" where
  "wireExtensionTypes buf = map (u16 buf) (helloExtensions buf)"

definition wireCipherSuites :: "byte list \<Rightarrow> nat list" where
  "wireCipherSuites buf = wireValues buf (cipherSuitesStart buf) (cipherSuitesLength buf)"

text \<open>The signature algorithms of the record at \<open>r\<close>: a 2-byte length, then 16-bit values.\<close>

definition wireSignatureAlgorithms :: "byte list \<Rightarrow> nat \<Rightarrow> nat list" where
  "wireSignatureAlgorithms buf r = wireValues buf (r + 6) (u16 buf (r + 4))"

text \<open>The supported versions of the record at \<open>r\<close>: a 1-byte length, then 16-bit values.\<close>

definition wireSupportedVersions :: "byte list \<Rightarrow> nat \<Rightarrow> nat list" where
  "wireSupportedVersions buf r = wireValues buf (r + 5) (u8 buf (r + 4))"

text \<open>The version table of the specification, on numbers.\<close>

definition versionTable :: "nat \<Rightarrow> string" where
  "versionTable v =
     (if v = 0x0002 then ''s2''
      else if v = 0x0300 then ''s3''
      else if v = 0x0301 then ''10''
      else if v = 0x0302 then ''11''
      else if v = 0x0303 then ''12''
      else if v = 0x0304 then ''13''
      else ''00'')"

text \<open>
  The ALPN code of the specification for the ALPN record at \<open>r\<close>: the payload is a 2-byte
  list length, then the first protocol with a 1-byte length.
\<close>

definition alpnFirst :: "byte list \<Rightarrow> nat \<Rightarrow> nat" where
  "alpnFirst buf r = u8 buf (r + 7)"

definition alpnLast :: "byte list \<Rightarrow> nat \<Rightarrow> nat" where
  "alpnLast buf r = u8 buf (r + 7 + u8 buf (r + 6) - 1)"

definition alpnCodeOf :: "byte list \<Rightarrow> nat \<Rightarrow> string" where
  "alpnCodeOf buf r =
     (if u16 buf (r + 4) = 0 \<or> u8 buf (r + 6) = 0 then ''00''
      else if 0x20 \<le> alpnFirst buf r \<and> alpnFirst buf r \<le> 0x7E
              \<and> 0x20 \<le> alpnLast buf r \<and> alpnLast buf r \<le> 0x7E
      then [char_of (alpnFirst buf r), char_of (alpnLast buf r)]
      else [hexDigit (alpnFirst buf r div 16), hexDigit (alpnLast buf r mod 16)])"

text \<open>
  What one ALPN record at \<open>r\<close> does to the ALPN code \<open>a\<close> held so far: a record with an
  empty protocol list, or with a first protocol of length 0, leaves it.
\<close>

definition alpnUpdate :: "byte list \<Rightarrow> string \<Rightarrow> nat \<Rightarrow> string" where
  "alpnUpdate buf a r =
     (if u16 buf (r + 4) = 0 \<or> u8 buf (r + 6) = 0 then a else alpnCodeOf buf r)"

text \<open>
  The reads of the parser, as conditions on the buffer.  \<open>inBuffer buf i w\<close>: the \<open>w\<close> bytes
  at offset \<open>i\<close> lie inside the buffer.  Each condition lists the reads in the order of
  the wire format, a later read at the offset that an earlier one gives.
\<close>

definition inBuffer :: "byte list \<Rightarrow> nat \<Rightarrow> nat \<Rightarrow> bool" where
  "inBuffer buf i w \<longleftrightarrow> i + w \<le> length buf"

text \<open>Every 16-bit value of a span of \<open>len\<close> bytes that starts at \<open>start\<close>.\<close>

definition valuesInBuffer :: "byte list \<Rightarrow> nat \<Rightarrow> nat \<Rightarrow> bool" where
  "valuesInBuffer buf start len \<longleftrightarrow> (\<forall>k < (len + 1) div 2. inBuffer buf (start + 2 * k) 2)"

text \<open>
  The payload of the ALPN record at \<open>r\<close>: the list length; with a list, the length of the
  first protocol; with a first protocol that is not empty, its first and its last byte.
\<close>

definition alpnInBuffer :: "byte list \<Rightarrow> nat \<Rightarrow> bool" where
  "alpnInBuffer buf r \<longleftrightarrow>
     inBuffer buf (r + 4) 2
     \<and> (u16 buf (r + 4) \<noteq> 0 \<longrightarrow>
          inBuffer buf (r + 6) 1
          \<and> (u8 buf (r + 6) \<noteq> 0 \<longrightarrow>
               inBuffer buf (r + 7) 1 \<and> inBuffer buf (r + 7 + u8 buf (r + 6) - 1) 1))"

text \<open>The payload of the supported-versions record at \<open>r\<close>: the length and the values.\<close>

definition supportedVersionsInBuffer :: "byte list \<Rightarrow> nat \<Rightarrow> bool" where
  "supportedVersionsInBuffer buf r \<longleftrightarrow>
     inBuffer buf (r + 4) 1 \<and> valuesInBuffer buf (r + 5) (u8 buf (r + 4))"

text \<open>The payload of the signature-algorithms record at \<open>r\<close>: the length and the values.\<close>

definition signatureAlgorithmsInBuffer :: "byte list \<Rightarrow> nat \<Rightarrow> bool" where
  "signatureAlgorithmsInBuffer buf r \<longleftrightarrow>
     inBuffer buf (r + 4) 2 \<and> valuesInBuffer buf (r + 6) (u16 buf (r + 4))"

text \<open>The extension record at \<open>r\<close>: its type, its length, and the payload reads of its type.\<close>

definition recordInBuffer :: "byte list \<Rightarrow> nat \<Rightarrow> bool" where
  "recordInBuffer buf r \<longleftrightarrow>
     inBuffer buf r 2 \<and> inBuffer buf (r + 2) 2
     \<and> (u16 buf r = 0x0010 \<longrightarrow> alpnInBuffer buf r)
     \<and> (u16 buf r = 0x002b \<longrightarrow> supportedVersionsInBuffer buf r)
     \<and> (u16 buf r = 0x000d \<longrightarrow> signatureAlgorithmsInBuffer buf r)"

text \<open>
  All reads of a ClientHello: the version, the three lengths before the extensions, the
  cipher suites, the length of the extensions, and every extension record.
\<close>

definition readsInBuffer :: "byte list \<Rightarrow> bool" where
  "readsInBuffer buf \<longleftrightarrow>
     inBuffer buf 4 2
     \<and> inBuffer buf 38 1
     \<and> inBuffer buf (39 + sessionIdLength buf) 2
     \<and> valuesInBuffer buf (cipherSuitesStart buf) (cipherSuitesLength buf)
     \<and> inBuffer buf (cipherSuitesStart buf + cipherSuitesLength buf) 1
     \<and> inBuffer buf (extensionsStart buf - 2) 2
     \<and> (\<forall>r \<in> set (helloExtensions buf). recordInBuffer buf r)"

text \<open>The variables of the parser when the extension loop starts.\<close>

definition initialState :: "byte list \<Rightarrow> hello" where
  "initialState buf =
     \<lparr>tlsMappedVersion = mapVersion (''0x'' @ hex4 (legacyVersion buf)),
      cipherSuites = map hex4 (greaseFiltered (wireCipherSuites buf)),
      extensionsList = [],
      sni = ''i'',
      alpn = ''00'',
      signatureAlgorithms = [],
      supportedVersions = []\<rparr>"

text \<open>The decimal digit for a number below 10.\<close>

definition decimalDigit :: "nat \<Rightarrow> char" where
  "decimalDigit d = char_of (48 + d)"

section \<open>Concrete inputs\<close>

text \<open>
  A ClientHello with legacy version 0x0303, the cipher suites 0x0a0a (GREASE), 0x0301 and
  0x00ff, and the extensions 0x1a1a (GREASE), server name (\<^verbatim>\<open>a.io\<close>), ALPN
  (\<^verbatim>\<open>h2\<close>), supported versions (0x2a2a, 0x0304, 0x0303), signature algorithms
  (0x0804, 0x0403) and 0x0017.
\<close>

definition exampleHello :: "byte list" where
  "exampleHello =
     [0x01, 0x00, 0x00, 0x62, 0x03, 0x03, 0x00, 0x00, 0x00, 0x00, 0x00, 0x00, 0x00, 0x00, 0x00, 0x00,
      0x00, 0x00, 0x00, 0x00, 0x00, 0x00, 0x00, 0x00, 0x00, 0x00, 0x00, 0x00, 0x00, 0x00, 0x00, 0x00,
      0x00, 0x00, 0x00, 0x00, 0x00, 0x00, 0x00, 0x00, 0x06, 0x0a, 0x0a, 0x03, 0x01, 0x00, 0xff, 0x01,
      0x00, 0x00, 0x33, 0x1a, 0x1a, 0x00, 0x00, 0x00, 0x00, 0x00, 0x09, 0x00, 0x07, 0x00, 0x00, 0x04,
      0x61, 0x2e, 0x69, 0x6f, 0x00, 0x10, 0x00, 0x05, 0x00, 0x03, 0x02, 0x68, 0x32, 0x00, 0x2b, 0x00,
      0x07, 0x06, 0x2a, 0x2a, 0x03, 0x04, 0x03, 0x03, 0x00, 0x0d, 0x00, 0x06, 0x00, 0x04, 0x08, 0x04,
      0x04, 0x03, 0x00, 0x17, 0x00, 0x00]"

definition exampleParsed :: hello where
  "exampleParsed =
     \<lparr>tlsMappedVersion = ''12'',
      cipherSuites = [''0301'', ''00ff''],
      extensionsList = [''0000'', ''0010'', ''002b'', ''000d'', ''0017''],
      sni = ''d'',
      alpn = ''h2'',
      signatureAlgorithms = [''0804'', ''0403''],
      supportedVersions = [0x0304, 0x0303]\<rparr>"

text \<open>
  A ClientHello with legacy version 0x0301, the cipher suites 0xc02f and 0x002f, and the
  extensions 0x000b and 0x0017 only: no server name, no ALPN, no supported versions, no
  signature algorithms.
\<close>

definition legacyHello :: "byte list" where
  "legacyHello =
     [0x01, 0x00, 0x00, 0x37, 0x03, 0x01, 0x00, 0x00, 0x00, 0x00, 0x00, 0x00, 0x00, 0x00, 0x00, 0x00,
      0x00, 0x00, 0x00, 0x00, 0x00, 0x00, 0x00, 0x00, 0x00, 0x00, 0x00, 0x00, 0x00, 0x00, 0x00, 0x00,
      0x00, 0x00, 0x00, 0x00, 0x00, 0x00, 0x00, 0x00, 0x04, 0xc0, 0x2f, 0x00, 0x2f, 0x01, 0x00, 0x00,
      0x0a, 0x00, 0x0b, 0x00, 0x02, 0x01, 0x00, 0x00, 0x17, 0x00, 0x00]"

definition legacyParsed :: hello where
  "legacyParsed =
     \<lparr>tlsMappedVersion = ''10'',
      cipherSuites = [''c02f'', ''002f''],
      extensionsList = [''000b'', ''0017''],
      sni = ''i'',
      alpn = ''00'',
      signatureAlgorithms = [],
      supportedVersions = []\<rparr>"



text \<open>
  A ClientHello with legacy version 0x0303 and the 100 cipher suites 0x1301 to 0x1364;
  no extension.
\<close>

definition bigHello :: "byte list" where
  "bigHello =
     [0x01, 0x00, 0x00, 0xf1, 0x03, 0x03, 0x00, 0x00, 0x00, 0x00, 0x00, 0x00, 0x00, 0x00, 0x00, 0x00,
      0x00, 0x00, 0x00, 0x00, 0x00, 0x00, 0x00, 0x00, 0x00, 0x00, 0x00, 0x00, 0x00, 0x00, 0x00, 0x00,
      0x00, 0x00, 0x00, 0x00, 0x00, 0x00, 0x00, 0x00, 0xc8, 0x13, 0x01, 0x13, 0x02, 0x13, 0x03, 0x13,
      0x04, 0x13, 0x05, 0x13, 0x06, 0x13, 0x07, 0x13, 0x08, 0x13, 0x09, 0x13, 0x0a, 0x13, 0x0b, 0x13,
      0x0c, 0x13, 0x0d, 0x13, 0x0e, 0x13, 0x0f, 0x13, 0x10, 0x13, 0x11, 0x13, 0x12, 0x13, 0x13, 0x13,
      0x14, 0x13, 0x15, 0x13, 0x16, 0x13, 0x17, 0x13, 0x18, 0x13, 0x19, 0x13, 0x1a, 0x13, 0x1b, 0x13,
      0x1c, 0x13, 0x1d, 0x13, 0x1e, 0x13, 0x1f, 0x13, 0x20, 0x13, 0x21, 0x13, 0x22, 0x13, 0x23, 0x13,
      0x24, 0x13, 0x25, 0x13, 0x26, 0x13, 0x27, 0x13, 0x28, 0x13, 0x29, 0x13, 0x2a, 0x13, 0x2b, 0x13,
      0x2c, 0x13, 0x2d, 0x13, 0x2e, 0x13, 0x2f, 0x13, 0x30, 0x13, 0x31, 0x13, 0x32, 0x13, 0x33, 0x13,
      0x34, 0x13, 0x35, 0x13, 0x36, 0x13, 0x37, 0x13, 0x38, 0x13, 0x39, 0x13, 0x3a, 0x13, 0x3b, 0x13,
      0x3c, 0x13, 0x3d, 0x13, 0x3e, 0x13, 0x3f, 0x13, 0x40, 0x13, 0x41, 0x13, 0x42, 0x13, 0x43, 0x13,
      0x44, 0x13, 0x45, 0x13, 0x46, 0x13, 0x47, 0x13, 0x48, 0x13, 0x49, 0x13, 0x4a, 0x13, 0x4b, 0x13,
      0x4c, 0x13, 0x4d, 0x13, 0x4e, 0x13, 0x4f, 0x13, 0x50, 0x13, 0x51, 0x13, 0x52, 0x13, 0x53, 0x13,
      0x54, 0x13, 0x55, 0x13, 0x56, 0x13, 0x57, 0x13, 0x58, 0x13, 0x59, 0x13, 0x5a, 0x13, 0x5b, 0x13,
      0x5c, 0x13, 0x5d, 0x13, 0x5e, 0x13, 0x5f, 0x13, 0x60, 0x13, 0x61, 0x13, 0x62, 0x13, 0x63, 0x13,
      0x64, 0x01, 0x00, 0x00, 0x00]"

text \<open>
  A ClientHello of 51 bytes with the cipher suite 0x1301 and one extension record of type
  0x0017, at offset 47, whose length field says 0xffff although the buffer ends with the
  length field.
\<close>

definition overshootHello :: "byte list" where
  "overshootHello =
     [0x01, 0x00, 0x00, 0x2f, 0x03, 0x03, 0x00, 0x00, 0x00, 0x00, 0x00, 0x00, 0x00, 0x00, 0x00, 0x00,
      0x00, 0x00, 0x00, 0x00, 0x00, 0x00, 0x00, 0x00, 0x00, 0x00, 0x00, 0x00, 0x00, 0x00, 0x00, 0x00,
      0x00, 0x00, 0x00, 0x00, 0x00, 0x00, 0x00, 0x00, 0x02, 0x13, 0x01, 0x01, 0x00, 0x00, 0x04, 0x00,
      0x17, 0xff, 0xff]"

definition overshootParsed :: hello where
  "overshootParsed =
     \<lparr>tlsMappedVersion = ''12'',
      cipherSuites = [''1301''],
      extensionsList = [''0017''],
      sni = ''i'',
      alpn = ''00'',
      signatureAlgorithms = [],
      supportedVersions = []\<rparr>"


text \<open>
  A ClientHello with the cipher suite 0x1301 and one extension, ALPN, at offset 47, whose
  first protocol is the two bytes 0xab 0xcd.
\<close>

definition opaqueAlpnHello :: "byte list" where
  "opaqueAlpnHello =
     [0x01, 0x00, 0x00, 0x34, 0x03, 0x03, 0x00, 0x00, 0x00, 0x00, 0x00, 0x00, 0x00, 0x00, 0x00, 0x00,
      0x00, 0x00, 0x00, 0x00, 0x00, 0x00, 0x00, 0x00, 0x00, 0x00, 0x00, 0x00, 0x00, 0x00, 0x00, 0x00,
      0x00, 0x00, 0x00, 0x00, 0x00, 0x00, 0x00, 0x00, 0x02, 0x13, 0x01, 0x01, 0x00, 0x00, 0x09, 0x00,
      0x10, 0x00, 0x05, 0x00, 0x03, 0x02, 0xab, 0xcd]"

definition opaqueAlpnParsed :: hello where
  "opaqueAlpnParsed =
     \<lparr>tlsMappedVersion = ''12'',
      cipherSuites = [''1301''],
      extensionsList = [''0010''],
      sni = ''i'',
      alpn = ''ad'',
      signatureAlgorithms = [],
      supportedVersions = []\<rparr>"

text \<open>
  A ClientHello of 55 bytes whose only extension, ALPN at offset 47, announces the protocol
  \<^verbatim>\<open>h2\<close>; the buffer ends after the \<^verbatim>\<open>h\<close>, one byte short.
\<close>

definition cutAlpnHello :: "byte list" where
  "cutAlpnHello =
     [0x01, 0x00, 0x00, 0x34, 0x03, 0x03, 0x00, 0x00, 0x00, 0x00, 0x00, 0x00, 0x00, 0x00, 0x00, 0x00,
      0x00, 0x00, 0x00, 0x00, 0x00, 0x00, 0x00, 0x00, 0x00, 0x00, 0x00, 0x00, 0x00, 0x00, 0x00, 0x00,
      0x00, 0x00, 0x00, 0x00, 0x00, 0x00, 0x00, 0x00, 0x02, 0x13, 0x01, 0x01, 0x00, 0x00, 0x09, 0x00,
      0x10, 0x00, 0x05, 0x00, 0x03, 0x02, 0x68]"

text \<open>
  A ClientHello of 56 bytes whose only extension, signature algorithms at offset 47, announces
  4 bytes of values; the buffer ends one byte short.
\<close>

definition cutAlgorithmsHello :: "byte list" where
  "cutAlgorithmsHello =
     [0x01, 0x00, 0x00, 0x35, 0x03, 0x03, 0x00, 0x00, 0x00, 0x00, 0x00, 0x00, 0x00, 0x00, 0x00, 0x00,
      0x00, 0x00, 0x00, 0x00, 0x00, 0x00, 0x00, 0x00, 0x00, 0x00, 0x00, 0x00, 0x00, 0x00, 0x00, 0x00,
      0x00, 0x00, 0x00, 0x00, 0x00, 0x00, 0x00, 0x00, 0x02, 0x13, 0x01, 0x01, 0x00, 0x00, 0x0a, 0x00,
      0x0d, 0x00, 0x06, 0x00, 0x04, 0x08, 0x04, 0x04]"

section \<open>Properties\<close>

subsection \<open>Results, reads and hexadecimal rendering\<close>

lemma bindE_eq_Inr: "bindE m f = Inr y \<longleftrightarrow> (\<exists>x. m = Inr x \<and> f x = Inr y)"
  by (cases m) simp_all

lemma bindE_eq_Inl: "bindE m f = Inl e \<longleftrightarrow> m = Inl e \<or> (\<exists>x. m = Inr x \<and> f x = Inl e)"
  by (cases m) simp_all

lemma unat_byte_less: "unat (b :: byte) < 256"
proof -
  have "unat b < 2 ^ LENGTH(8)" by (rule unsigned_less)
  then show ?thesis by simp
qed

lemma getUint8_Inr: "getUint8 buf i = Inr v \<longleftrightarrow> i < length buf \<and> v = unat (buf ! i)"
  by (auto simp: getUint8_def)

lemma getUint16_Inr:
  "getUint16 buf i = Inr v \<longleftrightarrow> i + 2 \<le> length buf \<and> v = unat (buf ! i) * 256 + unat (buf ! (i + 1))"
  by (auto simp: getUint16_def)

lemma getUint8_less: "getUint8 buf i = Inr v \<Longrightarrow> v < 256"
  by (simp add: getUint8_Inr unat_byte_less)

lemma getUint16_less: "getUint16 buf i = Inr v \<Longrightarrow> v < 65536"
proof -
  assume "getUint16 buf i = Inr v"
  then have v: "v = unat (buf ! i) * 256 + unat (buf ! (i + 1))"
    by (simp add: getUint16_Inr)
  have "unat (buf ! i) < 256" "unat (buf ! (i + 1)) < 256"
    by (rule unat_byte_less)+
  with v show ?thesis by arith
qed

lemma toString16_1: "n < 16 \<Longrightarrow> toString16 n = [hexDigit n]"
  by (simp add: toString16.simps)

lemma toString16_2:
  "16 \<le> n \<Longrightarrow> n < 256 \<Longrightarrow> toString16 n = [hexDigit (n div 16), hexDigit (n mod 16)]"
  using toString16.simps [of n] toString16_1 [of "n div 16"] by simp

lemma toString16_3:
  "256 \<le> n \<Longrightarrow> n < 4096 \<Longrightarrow>
   toString16 n = [hexDigit (n div 256), hexDigit (n div 16 mod 16), hexDigit (n mod 16)]"
proof -
  assume n: "256 \<le> n" "n < 4096"
  have d: "n div 16 div 16 = n div 256"
    by (simp add: div_mult2_eq [symmetric])
  from n have "16 \<le> n div 16" "n div 16 < 256" by arith+
  then have "toString16 (n div 16) = [hexDigit (n div 16 div 16), hexDigit (n div 16 mod 16)]"
    by (rule toString16_2)
  with n d show ?thesis
    using toString16.simps [of n] by simp
qed

lemma toString16_4:
  "4096 \<le> n \<Longrightarrow> n < 65536 \<Longrightarrow>
   toString16 n = [hexDigit (n div 4096), hexDigit (n div 256 mod 16),
                   hexDigit (n div 16 mod 16), hexDigit (n mod 16)]"
proof -
  assume n: "4096 \<le> n" "n < 65536"
  have d: "n div 16 div 256 = n div 4096" "n div 16 div 16 = n div 256"
    by (simp_all add: div_mult2_eq [symmetric])
  from n have "256 \<le> n div 16" "n div 16 < 4096" by arith+
  then have "toString16 (n div 16) =
      [hexDigit (n div 16 div 256), hexDigit (n div 16 div 16 mod 16), hexDigit (n div 16 mod 16)]"
    by (rule toString16_3)
  with n d show ?thesis
    using toString16.simps [of n] by simp
qed

lemma hexDigit_0: "hexDigit 0 = CHR ''0''"
  by (simp add: hexDigit_def)

lemma hex4_digits:
  assumes "v < 65536"
  shows "hex4 v = [hexDigit (v div 4096), hexDigit (v div 256 mod 16),
                   hexDigit (v div 16 mod 16), hexDigit (v mod 16)]"
proof -
  consider "v < 16" | "16 \<le> v" "v < 256" | "256 \<le> v" "v < 4096" | "4096 \<le> v"
    by linarith
  then show ?thesis
  proof cases
    case 1
    then show ?thesis
      by (simp add: hex4_def padStart_def toString16_1 hexDigit_0 numeral_3_eq_3)
  next
    case 2
    then show ?thesis
      by (simp add: hex4_def padStart_def toString16_2 hexDigit_0 numeral_2_eq_2)
  next
    case 3
    then show ?thesis
      by (simp add: hex4_def padStart_def toString16_3 hexDigit_0)
  next
    case 4
    with assms show ?thesis
      by (simp add: hex4_def padStart_def toString16_4)
  qed
qed

lemma hexDigit_code: "d < 16 \<Longrightarrow> (of_char (hexDigit d) :: nat) = (if d < 10 then 48 + d else 87 + d)"
proof -
  assume "d < 16"
  then have "d = 0 \<or> d = 1 \<or> d = 2 \<or> d = 3 \<or> d = 4 \<or> d = 5 \<or> d = 6 \<or> d = 7 \<or> d = 8
      \<or> d = 9 \<or> d = 10 \<or> d = 11 \<or> d = 12 \<or> d = 13 \<or> d = 14 \<or> d = 15"
    by arith
  then show ?thesis
    by (elim disjE) (simp_all add: hexDigit_def)
qed

lemma hexDigit_inj: "a < 16 \<Longrightarrow> b < 16 \<Longrightarrow> hexDigit a = hexDigit b \<Longrightarrow> a = b"
proof -
  assume a: "a < 16" and b: "b < 16" and eq: "hexDigit a = hexDigit b"
  from eq have "(of_char (hexDigit a) :: nat) = of_char (hexDigit b)" by simp
  with a b show ?thesis
    by (simp add: hexDigit_code split: if_splits)
qed

lemma eq_from_div_mod: "(a::nat) div k = b div k \<Longrightarrow> a mod k = b mod k \<Longrightarrow> a = b"
  by (metis div_mult_mod_eq)

lemma hex4_inj:
  assumes v: "v < 65536" and w: "w < 65536" and eq: "hex4 v = hex4 w"
  shows "v = w"
proof -
  from eq v w have d:
    "hexDigit (v div 4096) = hexDigit (w div 4096)"
    "hexDigit (v div 256 mod 16) = hexDigit (w div 256 mod 16)"
    "hexDigit (v div 16 mod 16) = hexDigit (w div 16 mod 16)"
    "hexDigit (v mod 16) = hexDigit (w mod 16)"
    by (simp_all add: hex4_digits)
  from v w have "v div 4096 < 16" "w div 4096 < 16" by arith+
  then have e1: "v div 4096 = w div 4096" using d(1) by (rule hexDigit_inj)
  have e2: "v div 256 mod 16 = w div 256 mod 16"
    by (rule hexDigit_inj [OF _ _ d(2)]) simp_all
  have e3: "v div 16 mod 16 = w div 16 mod 16"
    by (rule hexDigit_inj [OF _ _ d(3)]) simp_all
  have e4: "v mod 16 = w mod 16"
    by (rule hexDigit_inj [OF _ _ d(4)]) simp_all
  have "v div 256 div 16 = w div 256 div 16"
    using e1 by (simp add: div_mult2_eq [symmetric])
  then have e5: "v div 256 = w div 256"
    using e2 by (rule eq_from_div_mod)
  have "v div 16 div 16 = w div 16 div 16"
    using e5 by (simp add: div_mult2_eq [symmetric])
  then have "v div 16 = w div 16"
    using e3 by (rule eq_from_div_mod)
  then show ?thesis
    using e4 by (rule eq_from_div_mod)
qed

subsection \<open>The loops that filter GREASE values\<close>

lemma u16_less: "u16 buf i < 65536"
proof -
  have "unat (buf ! i) < 256" "unat (buf ! (i + 1)) < 256"
    by (rule unat_byte_less)+
  then show ?thesis unfolding u16_def by arith
qed

lemma getUint16_u16: "getUint16 buf i = Inr v \<Longrightarrow> v = u16 buf i"
  by (simp add: getUint16_Inr u16_def)

lemma wireValues_step:
  assumes "0 < n"
  shows "wireValues buf s n = u16 buf s # wireValues buf (s + 2) (n - 2)"
proof -
  from assms have h: "(n + 1) div 2 = Suc ((n - 2 + 1) div 2)"
    by arith
  have u: "[0..<Suc m] = 0 # map Suc [0..<m]" for m
    by (simp add: upt_conv_Cons map_Suc_upt del: upt_Suc)
  show ?thesis
    unfolding wireValues_def h u by (simp add: comp_def)
qed

lemma greaseLoop_Inr:
  "greaseLoop f buf start len i acc = Inr r \<Longrightarrow>
   r = acc @ map f (greaseFiltered (wireValues buf (start + i) (len - i)))"
proof (induction f buf start len i acc rule: greaseLoop.induct)
  case (1 f buf start len i acc)
  show ?case
  proof (cases "i < len")
    case False
    with "1.prems" show ?thesis
      by (simp add: greaseLoop.simps wireValues_def greaseFiltered_def)
  next
    case True
    with "1.prems" obtain v where v: "getUint16 buf (start + i) = Inr v"
      and rest: "greaseLoop f buf start len (i + 2)
                   (if v \<notin> GREASE_VALUES then acc @ [f v] else acc) = Inr r"
      by (auto simp: greaseLoop.simps [of f buf start len i acc] split: sum.splits)
    from "1.IH" [OF True v rest]
    have r: "r = (if v \<notin> GREASE_VALUES then acc @ [f v] else acc)
               @ map f (greaseFiltered (wireValues buf (start + (i + 2)) (len - (i + 2))))" .
    have "wireValues buf (start + i) (len - i)
            = v # wireValues buf (start + (i + 2)) (len - (i + 2))"
      using getUint16_u16 [OF v] True wireValues_step [of "len - i" buf "start + i"]
      by (simp add: add.assoc)
    with r show ?thesis
      by (simp add: greaseFiltered_def)
  qed
qed

subsection \<open>The extension loop\<close>

lemma getUint8_u8: "getUint8 buf i = Inr v \<Longrightarrow> v = u8 buf i"
  by (simp add: getUint8_Inr u8_def)

lemma not_grease_known:
  "0 \<notin> GREASE_VALUES" "16 \<notin> GREASE_VALUES" "43 \<notin> GREASE_VALUES" "13 \<notin> GREASE_VALUES"
  by (simp_all add: GREASE_VALUES_def)

text \<open>What one pass through the body of the extension loop does to each variable.\<close>

lemma processExtension_fixed:
  assumes "processExtension buf p t st = Inr st'"
  shows "tlsMappedVersion st' = tlsMappedVersion st" and "cipherSuites st' = cipherSuites st"
  using assms
  by (auto simp: processExtension_def Let_def bindE_eq_Inr split: if_splits)

lemma processExtension_extensionsList:
  assumes "processExtension buf p t st = Inr st'"
  shows "extensionsList st' = extensionsList st @ map hex4 (greaseFiltered [t])"
  using assms
  by (auto simp: processExtension_def Let_def bindE_eq_Inr greaseFiltered_def split: if_splits)

lemma processExtension_sni:
  assumes "processExtension buf p t st = Inr st'"
  shows "sni st' = (if t = 0 then ''d'' else sni st)"
  using assms
  by (auto simp: processExtension_def Let_def bindE_eq_Inr not_grease_known split: if_splits)

lemma processExtension_signatureAlgorithms:
  assumes "processExtension buf p t st = Inr st'"
  shows "signatureAlgorithms st' = signatureAlgorithms st @
           (if t = 13 then map hex4 (greaseFiltered (wireValues buf (p + 2) (u16 buf p))) else [])"
  using assms
  by (auto simp: processExtension_def Let_def bindE_eq_Inr not_grease_known
           dest!: greaseLoop_Inr getUint16_u16 split: if_splits)

lemma processExtension_supportedVersions:
  assumes "processExtension buf p t st = Inr st'"
  shows "supportedVersions st' = supportedVersions st @
           (if t = 43 then greaseFiltered (wireValues buf (p + 1) (u8 buf p)) else [])"
  using assms
  by (auto simp: processExtension_def Let_def bindE_eq_Inr not_grease_known
           dest!: greaseLoop_Inr getUint8_u8 split: if_splits)

lemma processExtension_alpn:
  assumes "processExtension buf p t st = Inr st'"
  shows "(if t = 16 then alpnExtension buf p (alpn st) else Inr (alpn st)) = Inr (alpn st')"
  using assms
  by (auto simp: processExtension_def Let_def bindE_eq_Inr not_grease_known split: if_splits)

lemma extensionsLoop_induct [consumes 1, case_names stop iter]:
  assumes run: "extensionsLoop buf end cur st = Inr st'"
    and base: "\<And>cur. \<not> cur < end \<Longrightarrow> P cur st'"
    and step: "\<And>cur st st1. cur < end \<Longrightarrow> cur + 4 \<le> length buf \<Longrightarrow>
        processExtension buf (cur + 4) (u16 buf cur) st = Inr st1 \<Longrightarrow>
        extensionsLoop buf end (cur + 4 + u16 buf (cur + 2)) st1 = Inr st' \<Longrightarrow>
        P (cur + 4 + u16 buf (cur + 2)) st1 \<Longrightarrow> P cur st"
  shows "P cur st"
  using run base step
proof (induction buf "end" cur st rule: extensionsLoop.induct)
  case (1 buf extensionsEndIndex currentIndex st)
  show ?case
  proof (cases "currentIndex < extensionsEndIndex")
    case False
    with "1.prems" have "st' = st"
      by (simp add: extensionsLoop.simps)
    with False show ?thesis
      using "1.prems"(2) by simp
  next
    case True
    with "1.prems"(1) obtain t l st1 where
      t: "getUint16 buf currentIndex = Inr t" and
      l: "getUint16 buf (currentIndex + 2) = Inr l" and
      p: "processExtension buf (currentIndex + 4) t st = Inr st1" and
      r: "extensionsLoop buf extensionsEndIndex (currentIndex + 4 + l) st1 = Inr st'"
      by (auto simp: extensionsLoop.simps [of buf extensionsEndIndex currentIndex st]
               split: sum.splits)
    have t': "t = u16 buf currentIndex" and l': "l = u16 buf (currentIndex + 2)"
      using t l by (auto dest: getUint16_u16)
    have len: "currentIndex + 4 \<le> length buf"
      using l by (simp add: getUint16_Inr)
    have "P (currentIndex + 4 + l) st1"
      by (rule "1.IH" [OF True t l p r "1.prems"(2) "1.prems"(3)])
    then show ?thesis
      using "1.prems"(3) [OF True len] p r unfolding t' l' by blast
  qed
qed

lemma extensionRecords_stop: "\<not> cur < e \<Longrightarrow> extensionRecords buf e cur = []"
  by (simp add: extensionRecords.simps)

lemma extensionRecords_iter:
  "cur < e \<Longrightarrow> extensionRecords buf e cur = cur # extensionRecords buf e (cur + 4 + u16 buf (cur + 2))"
  by (subst extensionRecords.simps) simp

lemma extensionsLoop_fixed:
  assumes "extensionsLoop buf e cur st = Inr st'"
  shows "tlsMappedVersion st' = tlsMappedVersion st \<and> cipherSuites st' = cipherSuites st"
  using assms
  by (induction cur st rule: extensionsLoop_induct) (auto dest: processExtension_fixed)

lemma extensionsLoop_extensionsList:
  assumes "extensionsLoop buf e cur st = Inr st'"
  shows "extensionsList st' =
         extensionsList st @ map hex4 (greaseFiltered (map (u16 buf) (extensionRecords buf e cur)))"
  using assms
proof (induction cur st rule: extensionsLoop_induct)
  case (stop cur)
  then show ?case by (simp add: extensionRecords_stop greaseFiltered_def)
next
  case (iter cur st st1)
  then show ?case
    by (simp add: extensionRecords_iter greaseFiltered_def processExtension_extensionsList)
qed

lemma extensionsLoop_sni:
  assumes "extensionsLoop buf e cur st = Inr st'"
  shows "sni st' = (if 0 \<in> set (map (u16 buf) (extensionRecords buf e cur)) then ''d'' else sni st)"
  using assms
proof (induction cur st rule: extensionsLoop_induct)
  case (stop cur)
  then show ?case by (simp add: extensionRecords_stop)
next
  case (iter cur st st1)
  then show ?case
    by (auto simp: extensionRecords_iter processExtension_sni)
qed

lemma extensionsLoop_signatureAlgorithms:
  assumes "extensionsLoop buf e cur st = Inr st'"
  shows "signatureAlgorithms st' = signatureAlgorithms st @
           concat (map (\<lambda>r. map hex4 (greaseFiltered (wireSignatureAlgorithms buf r)))
                    (recordsOfType buf 13 (extensionRecords buf e cur)))"
  using assms
proof (induction cur st rule: extensionsLoop_induct)
  case (stop cur)
  then show ?case by (simp add: extensionRecords_stop recordsOfType_def)
next
  case (iter cur st st1)
  then show ?case
    by (simp add: extensionRecords_iter recordsOfType_def wireSignatureAlgorithms_def
          processExtension_signatureAlgorithms ac_simps)
qed

lemma extensionsLoop_supportedVersions:
  assumes "extensionsLoop buf e cur st = Inr st'"
  shows "supportedVersions st' = supportedVersions st @
           concat (map (\<lambda>r. greaseFiltered (wireSupportedVersions buf r))
                    (recordsOfType buf 43 (extensionRecords buf e cur)))"
  using assms
proof (induction cur st rule: extensionsLoop_induct)
  case (stop cur)
  then show ?case by (simp add: extensionRecords_stop recordsOfType_def)
next
  case (iter cur st st1)
  then show ?case
    by (simp add: extensionRecords_iter recordsOfType_def wireSupportedVersions_def
          processExtension_supportedVersions ac_simps)
qed

subsection \<open>The parser as a whole\<close>

lemma parseClientHello_Inr:
  assumes "parseClientHello buf = Inr st"
  shows "extensionsLoop buf (extensionsEnd buf) (extensionsStart buf) (initialState buf) = Inr st"
    and "extensionsStart buf \<le> length buf"
proof -
  from assms obtain v sid csl cs cml el where
    v: "getUint16 buf 4 = Inr v" and
    sid: "getUint8 buf 38 = Inr sid" and
    csl: "getUint16 buf (39 + sid) = Inr csl" and
    cs: "greaseLoop hex4 buf (41 + sid) csl 0 [] = Inr cs" and
    cml: "getUint8 buf (41 + sid + csl) = Inr cml" and
    el: "getUint16 buf (42 + sid + csl + cml) = Inr el" and
    loop: "extensionsLoop buf (44 + sid + csl + cml + el) (44 + sid + csl + cml)
             \<lparr>tlsMappedVersion = mapVersion (''0x'' @ hex4 v), cipherSuites = cs,
              extensionsList = [], sni = ''i'', alpn = ''00'',
              signatureAlgorithms = [], supportedVersions = []\<rparr> = Inr st"
    by (auto simp: parseClientHello_def Let_def bindE_eq_Inr ac_simps)
  have v': "v = legacyVersion buf"
    using getUint16_u16 [OF v] by (simp add: legacyVersion_def)
  have sid': "sid = sessionIdLength buf"
    using getUint8_u8 [OF sid] by (simp add: sessionIdLength_def)
  have csl': "csl = cipherSuitesLength buf"
    using getUint16_u16 [OF csl] by (simp add: cipherSuitesLength_def sid')
  have cs': "cs = map hex4 (greaseFiltered (wireCipherSuites buf))"
    using greaseLoop_Inr [OF cs]
    by (simp add: wireCipherSuites_def cipherSuitesStart_def sid' csl')
  have cml': "cml = compressionMethodsLength buf"
    using getUint8_u8 [OF cml]
    by (simp add: compressionMethodsLength_def cipherSuitesStart_def sid' csl')
  have start: "44 + sid + csl + cml = extensionsStart buf"
    by (simp add: extensionsStart_def cipherSuitesStart_def sid' csl' cml')
  have el': "el = extensionsLength buf"
    using getUint16_u16 [OF el]
    by (simp add: extensionsLength_def cipherSuitesStart_def sid' csl' cml' ac_simps)
  show "extensionsLoop buf (extensionsEnd buf) (extensionsStart buf) (initialState buf) = Inr st"
    using loop unfolding start extensionsEnd_def initialState_def v' cs' el' .
  show "extensionsStart buf \<le> length buf"
    using el unfolding start [symmetric] by (simp add: getUint16_Inr)
qed

subsection \<open>Running the program on concrete inputs\<close>

lemma bindE_weak_cong: "m = m' \<Longrightarrow> bindE m f = bindE m' f"
  by simp

lemma replicate_numeral: "replicate (numeral k) x = x # replicate (pred_numeral k) x"
  by (simp add: numeral_eq_Suc)

lemmas parser_eval =
  parseClientHello_def greaseLoop.simps extensionsLoop.simps processExtension_def
  alpnExtension_def getUint8_def getUint16_def hex4_def padStart_def toString16.simps
  hexDigit_def mapVersion_def TLS_MAPPER_def GREASE_VALUES_def isPrintableAscii_def
  fromCharCode_def char_of_def bit_0 Let_def replicate_numeral

lemma parse_exampleHello: "parseClientHello exampleHello = Inr exampleParsed"
  by (simp add: exampleHello_def exampleParsed_def parser_eval cong: bindE_weak_cong)

lemma grease_less: "g \<in> GREASE_VALUES \<Longrightarrow> g < 65536"
  by (auto simp: GREASE_VALUES_def)

lemma hex4_not_grease:
  assumes "g \<in> GREASE_VALUES" and "\<forall>v \<in> set vs. v < 65536"
  shows "hex4 g \<notin> set (map hex4 (greaseFiltered vs))"
proof
  assume "hex4 g \<in> set (map hex4 (greaseFiltered vs))"
  then obtain v where v: "v \<in> set vs" "v \<notin> GREASE_VALUES" "hex4 g = hex4 v"
    by (auto simp: greaseFiltered_def)
  with assms have "g = v"
    by (auto intro: hex4_inj grease_less)
  with v assms show False by simp
qed

lemma wireValues_less: "\<forall>v \<in> set (wireValues buf s n). v < 65536"
  by (simp add: wireValues_def u16_less)

lemma parse_cipherSuites:
  "parseClientHello buf = Inr st \<Longrightarrow> cipherSuites st = map hex4 (greaseFiltered (wireCipherSuites buf))"
  by (drule parseClientHello_Inr(1), drule extensionsLoop_fixed) (simp add: initialState_def)

lemma parse_tlsMappedVersion:
  "parseClientHello buf = Inr st \<Longrightarrow> tlsMappedVersion st = mapVersion (''0x'' @ hex4 (legacyVersion buf))"
  by (drule parseClientHello_Inr(1), drule extensionsLoop_fixed) (simp add: initialState_def)

lemma parse_extensionsList:
  "parseClientHello buf = Inr st \<Longrightarrow> extensionsList st = map hex4 (greaseFiltered (wireExtensionTypes buf))"
  by (drule parseClientHello_Inr(1), drule extensionsLoop_extensionsList)
     (simp add: initialState_def wireExtensionTypes_def helloExtensions_def)

lemma parse_sni:
  "parseClientHello buf = Inr st \<Longrightarrow> sni st = (if 0 \<in> set (wireExtensionTypes buf) then ''d'' else ''i'')"
  by (drule parseClientHello_Inr(1), drule extensionsLoop_sni)
     (simp add: initialState_def wireExtensionTypes_def helloExtensions_def)

lemma parse_signatureAlgorithms:
  "parseClientHello buf = Inr st \<Longrightarrow>
   signatureAlgorithms st =
     concat (map (\<lambda>r. map hex4 (greaseFiltered (wireSignatureAlgorithms buf r)))
              (recordsOfType buf 13 (helloExtensions buf)))"
  by (drule parseClientHello_Inr(1), drule extensionsLoop_signatureAlgorithms)
     (simp add: initialState_def helloExtensions_def)

lemma parse_supportedVersions:
  "parseClientHello buf = Inr st \<Longrightarrow>
   supportedVersions st =
     concat (map (\<lambda>r. greaseFiltered (wireSupportedVersions buf r))
              (recordsOfType buf 43 (helloExtensions buf)))"
  by (drule parseClientHello_Inr(1), drule extensionsLoop_supportedVersions)
     (simp add: initialState_def helloExtensions_def)

text \<open>
  C6: after a successful parse none of the 16 GREASE values is in the list of cipher suites,
  of extension types, of signature algorithms (each held as 4-digit hexadecimal strings) or
  of supported versions (held as numbers).
\<close>

theorem grease_never_parsed:
  assumes "parseClientHello buf = Inr st"
  shows "\<forall>g \<in> GREASE_VALUES.
           hex4 g \<notin> set (cipherSuites st) \<and> hex4 g \<notin> set (extensionsList st) \<and>
           hex4 g \<notin> set (signatureAlgorithms st) \<and> g \<notin> set (supportedVersions st)"
proof
  fix g assume g: "g \<in> GREASE_VALUES"
  have c: "hex4 g \<notin> set (cipherSuites st)"
    unfolding parse_cipherSuites [OF assms] wireCipherSuites_def
    by (rule hex4_not_grease [OF g wireValues_less])
  have e: "hex4 g \<notin> set (extensionsList st)"
    unfolding parse_extensionsList [OF assms]
    by (rule hex4_not_grease [OF g]) (simp add: wireExtensionTypes_def u16_less)
  have s: "hex4 g \<notin> set (signatureAlgorithms st)"
    unfolding parse_signatureAlgorithms [OF assms]
    using hex4_not_grease [OF g wireValues_less]
    by (auto simp: wireSignatureAlgorithms_def)
  have v: "g \<notin> set (supportedVersions st)"
    unfolding parse_supportedVersions [OF assms]
    using g by (auto simp: greaseFiltered_def)
  from c e s v show "hex4 g \<notin> set (cipherSuites st) \<and> hex4 g \<notin> set (extensionsList st) \<and>
           hex4 g \<notin> set (signatureAlgorithms st) \<and> g \<notin> set (supportedVersions st)"
    by simp
qed

theorem grease_never_parsed_witness:
  "parseClientHello exampleHello = Inr exampleParsed \<and> 0x0a0a \<in> GREASE_VALUES \<and>
   ''0a0a'' \<notin> set (cipherSuites exampleParsed) \<and> ''0a0a'' \<notin> set (extensionsList exampleParsed) \<and>
   ''0a0a'' \<notin> set (signatureAlgorithms exampleParsed) \<and> 0x0a0a \<notin> set (supportedVersions exampleParsed)"
proof -
  have g: "0x0a0a \<in> GREASE_VALUES"
    by (simp add: GREASE_VALUES_def)
  have h: "hex4 0x0a0a = ''0a0a''"
    by (simp add: hex4_def padStart_def toString16.simps hexDigit_def)
  from grease_never_parsed [OF parse_exampleHello] g h parse_exampleHello
  show ?thesis by fastforce
qed

lemma parse_legacyHello: "parseClientHello legacyHello = Inr legacyParsed"
  by (simp add: legacyHello_def legacyParsed_def parser_eval cong: bindE_weak_cong)


subsection \<open>The version code\<close>

lemma hex4_eq_iff: "v < 65536 \<Longrightarrow> w < 65536 \<Longrightarrow> hex4 v = hex4 w \<longleftrightarrow> v = w"
  by (auto dest: hex4_inj)

lemma mapVersion_hex4:
  assumes "v < 65536"
  shows "mapVersion (''0x'' @ hex4 v) = versionTable v"
proof -
  have k: "''0002'' = hex4 0x0002" "''0300'' = hex4 0x0300" "''0301'' = hex4 0x0301"
    "''0302'' = hex4 0x0302" "''0303'' = hex4 0x0303" "''0304'' = hex4 0x0304"
    by (simp_all add: hex4_def padStart_def toString16.simps hexDigit_def replicate_numeral)
  have "mapVersion (''0x'' @ hex4 v) =
          (if hex4 v = hex4 0x0002 then ''s2''
           else if hex4 v = hex4 0x0300 then ''s3''
           else if hex4 v = hex4 0x0301 then ''10''
           else if hex4 v = hex4 0x0302 then ''11''
           else if hex4 v = hex4 0x0303 then ''12''
           else if hex4 v = hex4 0x0304 then ''13''
           else ''00'')"
    unfolding k [symmetric] by (simp add: mapVersion_def TLS_MAPPER_def)
  also have "\<dots> = versionTable v"
    using assms by (simp add: hex4_eq_iff versionTable_def)
  finally show ?thesis .
qed

lemma hd_sortDescending:
  assumes "vs \<noteq> []"
  shows "hd (sortDescending vs) = Max (set vs)"
proof -
  have ne: "sort vs \<noteq> []"
    using assms by (metis length_0_conv length_sort)
  have "hd (sortDescending vs) = last (sort vs)"
    by (simp add: sortDescending_def hd_rev)
  also have "\<dots> = Max (set (sort vs))"
  proof (rule Max_eqI [symmetric])
    show "finite (set (sort vs))" by simp
    show "last (sort vs) \<in> set (sort vs)" using ne by (rule last_in_set)
    fix y assume "y \<in> set (sort vs)"
    then obtain i where i: "i < length (sort vs)" "y = sort vs ! i"
      by (metis in_set_conv_nth)
    then have "sort vs ! i \<le> sort vs ! (length (sort vs) - 1)"
      by (intro sorted_nth_mono) auto
    with i ne show "y \<le> last (sort vs)"
      by (simp add: last_conv_nth)
  qed
  finally show ?thesis by simp
qed

lemma parse_supportedVersions_less:
  assumes "parseClientHello buf = Inr st"
  shows "\<forall>v \<in> set (supportedVersions st). v < 65536"
  unfolding parse_supportedVersions [OF assms]
  using wireValues_less by (auto simp: greaseFiltered_def wireSupportedVersions_def)

subsection \<open>The hash inputs\<close>


lemma truncatedHash_exampleCiphers:
  "truncatedHash sha256_digest ''00ff,0301'' = Inr ''50f1d9e0d591''"
  by code_simp

lemma truncatedHash_exampleExtensions:
  "truncatedHash sha256_digest ''000d,0017,002b_0804,0403'' = Inr ''2b272f05bdfa''"
  by code_simp

lemma wireValues_rec:
  "wireValues buf s n = (if 0 < n then u16 buf s # wireValues buf (s + 2) (n - 2) else [])"
  by (simp add: wireValues_step) (simp add: wireValues_def)

lemmas wire_eval =
  wireValues_rec extensionRecords.simps greaseFiltered_def recordsOfType_def
  wireCipherSuites_def wireExtensionTypes_def wireSignatureAlgorithms_def
  wireSupportedVersions_def helloExtensions_def extensionsEnd_def extensionsStart_def
  extensionsLength_def compressionMethodsLength_def cipherSuitesStart_def
  cipherSuitesLength_def sessionIdLength_def legacyVersion_def u8_def u16_def GREASE_VALUES_def

lemma getJA4Fingerprint_parsed:
  "parseClientHello buf = Inr st \<Longrightarrow>
   getJA4Fingerprint digest buf proto =
     bindE (ja4CipherHash digest st) (\<lambda>b.
     bindE (ja4ExtensionHash digest st) (\<lambda>c.
       Inr (ja4Base proto st @ ''_'' @ b @ ''_'' @ c)))"
  by (simp add: getJA4Fingerprint_def encodeJA4_def)

subsection \<open>The version code in the fingerprint\<close>

lemma fingerprint_exampleHello:
  "getJA4Fingerprint sha256_digest exampleHello ''tcp'' = Inr ''t13d0205h2_50f1d9e0d591_2b272f05bdfa''"
  using truncatedHash_exampleCiphers truncatedHash_exampleExtensions
  by (simp add: getJA4Fingerprint_parsed [OF parse_exampleHello] ja4CipherHash_def
        ja4ExtensionHash_def cipherSuitesString_def extensionHashInput_def hashExtensions_def
        ja4Base_def ptype_def versionCode_def sortDescending_def numCiphers_def numExtensions_def
        exampleParsed_def toString10.simps padStart_def hexDigit_def hex4_def toString16.simps
        mapVersion_def TLS_MAPPER_def Let_def replicate_numeral)

lemma versionTable_length: "length (versionTable v) = 2"
  by (simp add: versionTable_def)

text \<open>
  C2: the version code is the second and third character of component a and of the
  fingerprint.  It is the table entry of the numerically largest GREASE-filtered supported
  version when there is one, and of the legacy version field otherwise; a value that is not
  in the table gives 00 (by \<open>versionTable\<close>).  The supported versions are the
  GREASE-filtered values of the supported-versions records.  With the supported versions
  0x0303 and 0x0304 the code is 13 whatever the legacy version is.
\<close>

theorem version_code:
  assumes "parseClientHello buf = Inr st"
  shows "getJA4Fingerprint digest buf proto =
           bindE (ja4CipherHash digest st) (\<lambda>b.
           bindE (ja4ExtensionHash digest st) (\<lambda>c.
             Inr (ja4Base proto st @ ''_'' @ b @ ''_'' @ c)))
         \<and> ja4Base proto st =
             ptype proto @ versionCode st @ sni st @ numCiphers st @ numExtensions st @ alpn st
         \<and> length (ptype proto) = 1 \<and> length (versionCode st) = 2
         \<and> take 2 (drop 1 (ja4Base proto st)) = versionCode st
         \<and> (getJA4Fingerprint digest buf proto = Inr fp \<longrightarrow> take 2 (drop 1 fp) = versionCode st)
         \<and> versionCode st =
           (if supportedVersions st \<noteq> [] then versionTable (Max (set (supportedVersions st)))
            else versionTable (legacyVersion buf))
         \<and> supportedVersions st =
             concat (map (\<lambda>r. greaseFiltered (wireSupportedVersions buf r))
                      (recordsOfType buf 0x002b (helloExtensions buf)))
         \<and> (set (supportedVersions st) = {0x0303, 0x0304} \<longrightarrow> versionCode st = ''13'')"
proof -
  have main: "versionCode st =
           (if supportedVersions st \<noteq> [] then versionTable (Max (set (supportedVersions st)))
            else versionTable (legacyVersion buf))"
  proof (cases "supportedVersions st = []")
    case True
    have "legacyVersion buf < 65536"
      by (simp add: legacyVersion_def u16_less)
    then have "mapVersion (''0x'' @ hex4 (legacyVersion buf)) = versionTable (legacyVersion buf)"
      by (rule mapVersion_hex4)
    with True show ?thesis
      by (simp add: versionCode_def parse_tlsMappedVersion [OF assms])
  next
    case False
    then have "Max (set (supportedVersions st)) \<in> set (supportedVersions st)"
      by (intro Max_in) auto
    with parse_supportedVersions_less [OF assms]
    have "Max (set (supportedVersions st)) < 65536" by blast
    then have "mapVersion (''0x'' @ hex4 (Max (set (supportedVersions st))))
                 = versionTable (Max (set (supportedVersions st)))"
      by (rule mapVersion_hex4)
    with False show ?thesis
      by (simp add: versionCode_def Let_def hd_sortDescending)
  qed
  have thirteen: "versionCode st = ''13''" if "set (supportedVersions st) = {0x0303, 0x0304}"
  proof -
    from that have "supportedVersions st \<noteq> []" by auto
    with main that show ?thesis by (simp add: versionTable_def)
  qed
  have fp: "getJA4Fingerprint digest buf proto =
           bindE (ja4CipherHash digest st) (\<lambda>b.
           bindE (ja4ExtensionHash digest st) (\<lambda>c.
             Inr (ja4Base proto st @ ''_'' @ b @ ''_'' @ c)))"
    by (rule getJA4Fingerprint_parsed [OF assms])
  have base: "ja4Base proto st =
             ptype proto @ versionCode st @ sni st @ numCiphers st @ numExtensions st @ alpn st"
    by (simp add: ja4Base_def)
  have lp: "length (ptype proto) = 1"
    by (simp add: ptype_def)
  have lv: "length (versionCode st) = 2"
    unfolding main by (simp add: versionTable_length)
  have pos: "take 2 (drop 1 (ja4Base proto st @ rest)) = versionCode st" for rest
    unfolding base using lp lv by simp
  have out: "take 2 (drop 1 fp) = versionCode st" if "getJA4Fingerprint digest buf proto = Inr fp"
  proof -
    from that obtain b c where "fp = ja4Base proto st @ ''_'' @ b @ ''_'' @ c"
      unfolding fp by (auto simp: bindE_eq_Inr)
    then show ?thesis using pos by simp
  qed
  from fp base lp lv pos [of "[]"] out main parse_supportedVersions [OF assms] thirteen
  show ?thesis by simp
qed

theorem version_code_witness:
  "parseClientHello exampleHello = Inr exampleParsed
   \<and> legacyVersion exampleHello = 0x0303
   \<and> set (supportedVersions exampleParsed) = {0x0303, 0x0304}
   \<and> versionCode exampleParsed = ''13''
   \<and> getJA4Fingerprint sha256_digest exampleHello ''tcp'' = Inr ''t13d0205h2_50f1d9e0d591_2b272f05bdfa''
   \<and> take 2 (drop 1 ''t13d0205h2_50f1d9e0d591_2b272f05bdfa'') = versionCode exampleParsed
   \<and> parseClientHello legacyHello = Inr legacyParsed
   \<and> supportedVersions legacyParsed = []
   \<and> legacyVersion legacyHello = 0x0301
   \<and> versionCode legacyParsed = ''10''
   \<and> take 2 (drop 1 (ja4Base ''tcp'' legacyParsed)) = ''10''"
proof -
  note t = version_code [OF parse_exampleHello, of sha256_digest "''tcp''"
      "''t13d0205h2_50f1d9e0d591_2b272f05bdfa''"]
  note u = version_code [OF parse_legacyHello, of sha256_digest "''tcp''" "[]"]
  have s: "set (supportedVersions exampleParsed) = {0x0303, 0x0304}"
    by (auto simp: exampleParsed_def)
  have l: "legacyVersion exampleHello = 0x0303" "legacyVersion legacyHello = 0x0301"
    by (simp_all add: legacyVersion_def u16_def exampleHello_def legacyHello_def)
  have e: "supportedVersions legacyParsed = []"
    by (simp add: legacyParsed_def)
  have a: "versionCode exampleParsed = ''13''"
    using t s by blast
  have o: "take 2 (drop 1 ''t13d0205h2_50f1d9e0d591_2b272f05bdfa'') = versionCode exampleParsed"
    using t fingerprint_exampleHello by blast
  have b: "versionCode legacyParsed = ''10''"
    using u e l by (simp add: versionTable_def)
  have c: "take 2 (drop 1 (ja4Base ''tcp'' legacyParsed)) = ''10''"
    using u b by simp
  from a o b c s l e parse_exampleHello parse_legacyHello fingerprint_exampleHello
  show ?thesis by simp
qed

subsection \<open>Components b and c\<close>

text \<open>
  C5: component b is the truncated hash of the comma-joined, sorted list of the
  GREASE-filtered cipher-suite values of the wire, each a 4-digit lower-case hexadecimal
  string.  The order is the lexicographic order of strings, and sorting keeps every element.
  For the values 0x0301 and 0x00ff, 00ff comes first.
\<close>

theorem cipher_hash:
  assumes "parseClientHello buf = Inr st"
  shows "getJA4Fingerprint digest buf proto =
           bindE (ja4CipherHash digest st) (\<lambda>b.
           bindE (ja4ExtensionHash digest st) (\<lambda>c.
             Inr (ja4Base proto st @ ''_'' @ b @ ''_'' @ c)))
         \<and> ja4CipherHash digest st =
             truncatedHash digest
               (join '','' (sort (map hex4 (greaseFiltered (wireCipherSuites buf)))))
         \<and> sorted (sort (cipherSuites st))
         \<and> mset (sort (cipherSuites st)) = mset (cipherSuites st)
         \<and> sort [hex4 0x0301, hex4 0x00ff] = [''00ff'', ''0301'']"
proof -
  have "sort [hex4 0x0301, hex4 0x00ff] = [''00ff'', ''0301'']"
    by (simp add: hex4_def padStart_def toString16.simps hexDigit_def replicate_numeral)
  then show ?thesis
    using getJA4Fingerprint_parsed [OF assms] parse_cipherSuites [OF assms]
    by (simp add: ja4CipherHash_def cipherSuitesString_def)
qed

theorem cipher_hash_witness:
  "parseClientHello exampleHello = Inr exampleParsed
   \<and> greaseFiltered (wireCipherSuites exampleHello) = [0x0301, 0x00ff]
   \<and> ja4CipherHash sha256_digest exampleParsed = Inr ''50f1d9e0d591''
   \<and> getJA4Fingerprint sha256_digest exampleHello ''tcp'' =
       Inr ''t13d0205h2_50f1d9e0d591_2b272f05bdfa''"
proof -
  note t = cipher_hash [OF parse_exampleHello, of sha256_digest "''tcp''"]
  have w: "greaseFiltered (wireCipherSuites exampleHello) = [0x0301, 0x00ff]"
    by (simp add: wire_eval exampleHello_def)
  have h: "join '','' (sort (map hex4 [0x0301, 0x00ff])) = ''00ff,0301''"
    by (simp add: hex4_def padStart_def toString16.simps hexDigit_def replicate_numeral)
  have b: "ja4CipherHash sha256_digest exampleParsed = Inr ''50f1d9e0d591''"
    using t w h truncatedHash_exampleCiphers by simp
  have i: "extensionHashInput exampleParsed = ''000d,0017,002b_0804,0403''"
    by (simp add: extensionHashInput_def hashExtensions_def exampleParsed_def)
  have c: "ja4ExtensionHash sha256_digest exampleParsed = Inr ''2b272f05bdfa''"
    using i truncatedHash_exampleExtensions by (simp add: ja4ExtensionHash_def)
  have a: "ja4Base ''tcp'' exampleParsed = ''t13d0205h2''"
    by (simp add: ja4Base_def ptype_def versionCode_def sortDescending_def numCiphers_def
          numExtensions_def exampleParsed_def toString10.simps padStart_def hexDigit_def
          hex4_def toString16.simps mapVersion_def TLS_MAPPER_def Let_def replicate_numeral)
  from t b c a w parse_exampleHello show ?thesis by simp
qed

text \<open>
  C4: the input of the hash for component c is the comma-joined sorted list of the
  GREASE-filtered extension types of the wire, as 4-digit hexadecimal strings, without the
  codes 0000 and 0010; sorting and filtering keep every other element as often as it occurs.
  Exactly when the list of signature algorithms is not empty, an underscore and the
  comma-joined signature algorithms follow, in the order of the wire.  Component c is the
  truncated hash of that string.
\<close>

theorem extension_hash:
  assumes "parseClientHello buf = Inr st"
  shows "getJA4Fingerprint digest buf proto =
           bindE (ja4CipherHash digest st) (\<lambda>b.
           bindE (ja4ExtensionHash digest st) (\<lambda>c.
             Inr (ja4Base proto st @ ''_'' @ b @ ''_'' @ c)))
         \<and> ja4ExtensionHash digest st = truncatedHash digest (extensionHashInput st)
         \<and> extensionHashInput st =
             join '','' (sort (filter (\<lambda>x. x \<noteq> ''0000'' \<and> x \<noteq> ''0010'')
                                 (map hex4 (greaseFiltered (wireExtensionTypes buf)))))
             @ (if signatureAlgorithms st \<noteq> []
                then ''_'' @ join '','' (signatureAlgorithms st) else [])
         \<and> signatureAlgorithms st =
             concat (map (\<lambda>r. map hex4 (greaseFiltered (wireSignatureAlgorithms buf r)))
                      (recordsOfType buf 0x000d (helloExtensions buf)))
         \<and> sorted (hashExtensions st)
         \<and> mset (hashExtensions st) =
             filter_mset (\<lambda>x. x \<noteq> ''0000'' \<and> x \<noteq> ''0010'') (mset (extensionsList st))"
  using getJA4Fingerprint_parsed [OF assms] parse_extensionsList [OF assms]
    parse_signatureAlgorithms [OF assms]
  by (simp add: ja4ExtensionHash_def extensionHashInput_def hashExtensions_def Let_def)

theorem extension_hash_witness:
  "parseClientHello exampleHello = Inr exampleParsed
   \<and> greaseFiltered (wireExtensionTypes exampleHello) = [0x0000, 0x0010, 0x002b, 0x000d, 0x0017]
   \<and> recordsOfType exampleHello 0x000d (helloExtensions exampleHello) = [88]
   \<and> greaseFiltered (wireSignatureAlgorithms exampleHello 88) = [0x0804, 0x0403]
   \<and> extensionHashInput exampleParsed = ''000d,0017,002b_0804,0403''
   \<and> ja4ExtensionHash sha256_digest exampleParsed = Inr ''2b272f05bdfa''
   \<and> parseClientHello legacyHello = Inr legacyParsed
   \<and> signatureAlgorithms legacyParsed = []
   \<and> extensionHashInput legacyParsed = ''000b,0017''"
proof -
  note t = extension_hash [OF parse_exampleHello, of sha256_digest "''tcp''"]
  note u = extension_hash [OF parse_legacyHello, of sha256_digest "''tcp''"]
  have w: "greaseFiltered (wireExtensionTypes exampleHello) = [0x0000, 0x0010, 0x002b, 0x000d, 0x0017]"
    "recordsOfType exampleHello 0x000d (helloExtensions exampleHello) = [88]"
    "greaseFiltered (wireSignatureAlgorithms exampleHello 88) = [0x0804, 0x0403]"
    by (simp_all add: wire_eval exampleHello_def)
  have x: "greaseFiltered (wireExtensionTypes legacyHello) = [0x000b, 0x0017]"
    by (simp add: wire_eval legacyHello_def)
  have h: "map hex4 [0x0000, 0x0010, 0x002b, 0x000d, 0x0017]
             = [''0000'', ''0010'', ''002b'', ''000d'', ''0017'']"
    "map hex4 [0x0804, 0x0403] = [''0804'', ''0403'']"
    "map hex4 [0x000b, 0x0017] = [''000b'', ''0017'']"
    by (simp_all add: hex4_def padStart_def toString16.simps hexDigit_def replicate_numeral)
  have s: "signatureAlgorithms exampleParsed = [''0804'', ''0403'']"
    "signatureAlgorithms legacyParsed = []"
    by (simp_all add: exampleParsed_def legacyParsed_def)
  have i: "extensionHashInput exampleParsed = ''000d,0017,002b_0804,0403''"
    using t [THEN conjunct2, THEN conjunct2, THEN conjunct1] w h s by simp
  have j: "extensionHashInput legacyParsed = ''000b,0017''"
    using u [THEN conjunct2, THEN conjunct2, THEN conjunct1] x h s by simp
  have c: "ja4ExtensionHash sha256_digest exampleParsed = Inr ''2b272f05bdfa''"
    using t [THEN conjunct2, THEN conjunct1] i truncatedHash_exampleExtensions by simp
  from w i j c s parse_exampleHello parse_legacyHello show ?thesis by simp
qed



subsection \<open>The counts\<close>

lemma hexDigit_decimal: "d < 10 \<Longrightarrow> hexDigit d = decimalDigit d"
proof -
  assume "d < 10"
  then have "d = 0 \<or> d = 1 \<or> d = 2 \<or> d = 3 \<or> d = 4 \<or> d = 5 \<or> d = 6 \<or> d = 7 \<or> d = 8 \<or> d = 9"
    by arith
  then show ?thesis
    by (elim disjE) (simp_all add: hexDigit_def decimalDigit_def char_of_def bit_0)
qed

lemma toString10_nonempty: "toString10 n \<noteq> []"
  by (subst toString10.simps) simp

lemma pad2_small:
  assumes "n < 100"
  shows "padStart 2 CHR ''0'' (toString10 n) = [decimalDigit (n div 10), decimalDigit (n mod 10)]"
proof (cases "n < 10")
  case True
  then have "toString10 n = [hexDigit n]"
    by (simp add: toString10.simps)
  moreover have "decimalDigit 0 = CHR ''0''"
    by (simp add: decimalDigit_def char_of_def bit_0)
  ultimately show ?thesis
    using True by (simp add: padStart_def hexDigit_decimal)
next
  case False
  with assms have "n div 10 < 10" by arith
  then have "toString10 (n div 10) = [hexDigit (n div 10)]"
    by (simp add: toString10.simps)
  with False have "toString10 n = [hexDigit (n div 10), hexDigit (n mod 10)]"
    by (subst toString10.simps) simp
  with \<open>n div 10 < 10\<close> show ?thesis
    by (simp add: padStart_def hexDigit_decimal)
qed

lemma pad2_large:
  assumes "100 \<le> n"
  shows "padStart 2 CHR ''0'' (toString10 n) = toString10 n \<and> 3 \<le> length (toString10 n)"
proof -
  from assms have a: "\<not> n < 10" and b: "\<not> n div 10 < 10" by arith+
  have "toString10 n = toString10 (n div 10 div 10) @ [hexDigit (n div 10 mod 10), hexDigit (n mod 10)]"
    using a b by (subst toString10.simps, subst toString10.simps) simp
  moreover have "1 \<le> length (toString10 (n div 10 div 10))"
    using toString10_nonempty [of "n div 10 div 10"] by (cases "toString10 (n div 10 div 10)") auto
  ultimately have "3 \<le> length (toString10 n)" by simp
  then show ?thesis by (simp add: padStart_def)
qed

text \<open>
  C7, as the code has it: the two counts in component a are the lengths of the
  GREASE-filtered cipher-suite and extension-type lists of the wire (server name and ALPN
  are in the second); a count below 100 is rendered as exactly two decimal digits, with a
  leading zero below 10; a count of 100 or more is rendered in full, with three digits or more.
\<close>

theorem counts_rendering:
  assumes "parseClientHello buf = Inr st"
  shows "ja4Base proto st =
           ptype proto @ versionCode st @ sni st @ numCiphers st @ numExtensions st @ alpn st
         \<and> numCiphers st = padStart 2 CHR ''0'' (toString10 (length (greaseFiltered (wireCipherSuites buf))))
         \<and> numExtensions st = padStart 2 CHR ''0'' (toString10 (length (greaseFiltered (wireExtensionTypes buf))))
         \<and> (\<forall>n < 100. padStart 2 CHR ''0'' (toString10 n)
                         = [decimalDigit (n div 10), decimalDigit (n mod 10)])
         \<and> (\<forall>n \<ge> 100. padStart 2 CHR ''0'' (toString10 n) = toString10 n
                         \<and> 3 \<le> length (toString10 n))"
  using parse_cipherSuites [OF assms] parse_extensionsList [OF assms] pad2_small pad2_large
  by (simp add: ja4Base_def numCiphers_def numExtensions_def)

theorem counts_rendering_witness:
  "parseClientHello exampleHello = Inr exampleParsed
   \<and> greaseFiltered (wireCipherSuites exampleHello) = [0x0301, 0x00ff]
   \<and> greaseFiltered (wireExtensionTypes exampleHello) = [0x0000, 0x0010, 0x002b, 0x000d, 0x0017]
   \<and> numCiphers exampleParsed = ''02'' \<and> numExtensions exampleParsed = ''05''
   \<and> (12::nat) < 100 \<and> padStart 2 CHR ''0'' (toString10 12) = ''12''
   \<and> (100::nat) \<ge> 100 \<and> padStart 2 CHR ''0'' (toString10 100) = ''100''"
proof -
  note t = counts_rendering [OF parse_exampleHello, of "''tcp''"]
  have w: "greaseFiltered (wireCipherSuites exampleHello) = [0x0301, 0x00ff]"
    "greaseFiltered (wireExtensionTypes exampleHello) = [0x0000, 0x0010, 0x002b, 0x000d, 0x0017]"
    by (simp_all add: wire_eval exampleHello_def)
  have d: "decimalDigit 1 = CHR ''1''" "decimalDigit 2 = CHR ''2''"
    by (simp_all add: decimalDigit_def char_of_def bit_0)
  have c: "numCiphers exampleParsed = ''02''" "numExtensions exampleParsed = ''05''"
    using t w by (simp_all add: toString10.simps hexDigit_def padStart_def)
  have "(12::nat) < 100" by simp
  with t have "padStart 2 CHR ''0'' (toString10 12) = [decimalDigit (12 div 10), decimalDigit (12 mod 10)]"
    by blast
  with d have s: "padStart 2 CHR ''0'' (toString10 12) = ''12''"
    by simp
  have "(100::nat) \<ge> 100" by simp
  with t have "padStart 2 CHR ''0'' (toString10 100) = toString10 100"
    by blast
  then have l: "padStart 2 CHR ''0'' (toString10 100) = ''100''"
    by (simp add: toString10.simps hexDigit_def)
  from w c s l parse_exampleHello show ?thesis by simp
qed

text \<open>
  The claim C7 as written fails: with 100 cipher suites the count has three digits.
\<close>

theorem counts_rendering_counterexample:
  "map_sum id (\<lambda>st. length (cipherSuites st)) (parseClientHello bigHello) = Inr 100
   \<and> map_sum id numCiphers (parseClientHello bigHello) = Inr ''100''
   \<and> map_sum id (ja4Base ''tcp'') (parseClientHello bigHello) = Inr ''t12i1000000''"
  by (simp add: bigHello_def parser_eval ja4Base_def ptype_def versionCode_def numCiphers_def
        numExtensions_def toString10.simps cong: bindE_weak_cong)

subsection \<open>The ALPN code\<close>

lemma nibbles:
  fixes x :: nat
  shows "x AND 15 = x mod 16" and "drop_bit 4 x = x div 16"
proof -
  have "x AND mask 4 = x mod 2 ^ 4"
    by (simp add: take_bit_eq_mask [symmetric] take_bit_eq_mod)
  then show "x AND 15 = x mod 16"
    by (simp add: mask_eq_exp_minus_1)
  show "drop_bit 4 x = x div 16"
    by (simp add: drop_bit_eq_div)
qed

lemma numeral_first: "(x::nat) + numeral k = numeral k + x"
  by simp

lemma alpnExtension_update:
  assumes "alpnExtension buf (r + 4) a0 = Inr a"
  shows "a = alpnUpdate buf a0 r"
proof (cases "u16 buf (r + 4) = 0 \<or> u8 buf (r + 6) = 0")
  case True
  with assms show ?thesis
    by (auto simp: alpnExtension_def alpnUpdate_def Let_def bindE_eq_Inr numeral_first
             dest!: getUint16_u16 getUint8_u8 split: if_splits)
next
  case False
  with assms obtain f l where
    f: "getUint8 buf (r + 7) = Inr f" and
    l: "getUint8 buf (r + 7 + u8 buf (r + 6) - 1) = Inr l" and
    a: "a = (if isPrintableAscii f \<and> isPrintableAscii l then [fromCharCode f, fromCharCode l]
             else toString16 (drop_bit 4 f AND 15) @ toString16 (l AND 15))"
    by (auto simp: alpnExtension_def Let_def bindE_eq_Inr numeral_first
             dest!: getUint16_u16 dest: getUint8_u8 split: if_splits)
  have f': "f = alpnFirst buf r" and l': "l = alpnLast buf r"
    using getUint8_u8 [OF f] getUint8_u8 [OF l]
    by (simp_all add: alpnFirst_def alpnLast_def numeral_first)
  have "f < 256" using f by (rule getUint8_less)
  then have "f div 16 < 16" by arith
  then have h: "toString16 (drop_bit 4 f AND 15) = [hexDigit (f div 16)]"
    by (simp add: nibbles toString16_1)
  have k: "toString16 (l AND 15) = [hexDigit (l mod 16)]"
    by (simp add: nibbles toString16_1)
  from a False show ?thesis
    unfolding f' l'
    by (simp add: alpnUpdate_def alpnCodeOf_def isPrintableAscii_def fromCharCode_def
          h [unfolded f'] k [unfolded l'])
qed

lemma extensionsLoop_alpn:
  assumes "extensionsLoop buf e cur st = Inr st'"
  shows "alpn st' = foldl (alpnUpdate buf) (alpn st) (recordsOfType buf 16 (extensionRecords buf e cur))"
  using assms
proof (induction cur st rule: extensionsLoop_induct)
  case (stop cur)
  then show ?case by (simp add: extensionRecords_stop recordsOfType_def)
next
  case (iter cur st st1)
  have "alpn st1 = (if u16 buf cur = 16 then alpnUpdate buf (alpn st) cur else alpn st)"
    using processExtension_alpn [OF iter.hyps(3)]
    by (auto dest: alpnExtension_update)
  with iter.IH iter.hyps(1) show ?case
    by (simp add: extensionRecords_iter recordsOfType_def)
qed

lemma alpnUpdate_default: "alpnUpdate buf ''00'' r = alpnCodeOf buf r"
  by (simp add: alpnUpdate_def alpnCodeOf_def)

text \<open>
  C3: without an ALPN record (type 0x0010) the ALPN code is 00.  With one ALPN record it is
  \<open>alpnCodeOf\<close> of that record: 00 when the protocol list is empty or the first protocol
  has length 0; the characters of the first and the last byte of the first protocol when both
  are in the range 0x20 to 0x7E; and otherwise the high nibble of the first byte and the low
  nibble of the last, as hexadecimal digits.  The protocol h2 gives h2.  In general the code
  starts as 00 and every ALPN record in turn replaces it by its own, unless its protocol
  list is empty or its first protocol has length 0.
\<close>

theorem alpn_code:
  assumes "parseClientHello buf = Inr st"
  shows "alpn st = foldl (alpnUpdate buf) ''00'' (recordsOfType buf 0x0010 (helloExtensions buf))
         \<and> (recordsOfType buf 0x0010 (helloExtensions buf) = [] \<longrightarrow> alpn st = ''00'')
         \<and> (\<forall>r. recordsOfType buf 0x0010 (helloExtensions buf) = [r] \<longrightarrow>
                alpn st = alpnCodeOf buf r
                \<and> (u16 buf (r + 4) \<noteq> 0 \<and> u8 buf (r + 6) = 2 \<and> u8 buf (r + 7) = 0x68
                     \<and> u8 buf (r + 8) = 0x32 \<longrightarrow> alpn st = ''h2''))"
proof -
  have general: "alpn st = foldl (alpnUpdate buf) ''00'' (recordsOfType buf 0x0010 (helloExtensions buf))"
    using extensionsLoop_alpn [OF parseClientHello_Inr(1) [OF assms]]
    by (simp add: helloExtensions_def initialState_def)
  have h2: "alpnCodeOf buf r = ''h2''"
    if "u16 buf (r + 4) \<noteq> 0" "u8 buf (r + 6) = 2" "u8 buf (r + 7) = 0x68" "u8 buf (r + 8) = 0x32" for r
  proof -
    have c: "char_of (0x68::nat) = CHR ''h''" "char_of (0x32::nat) = CHR ''2''"
      by (simp_all add: char_of_def bit_0)
    from that have "alpnFirst buf r = 0x68" "alpnLast buf r = 0x32"
      by (simp_all add: alpnFirst_def alpnLast_def numeral_first)
    with that c show ?thesis
      by (simp add: alpnCodeOf_def)
  qed
  from general h2 show ?thesis
    by (auto simp: alpnUpdate_default)
qed

lemma parse_opaqueAlpnHello: "parseClientHello opaqueAlpnHello = Inr opaqueAlpnParsed"
  by (simp add: opaqueAlpnHello_def opaqueAlpnParsed_def parser_eval cong: bindE_weak_cong)

theorem alpn_code_witness:
  "parseClientHello legacyHello = Inr legacyParsed
   \<and> recordsOfType legacyHello 0x0010 (helloExtensions legacyHello) = []
   \<and> alpn legacyParsed = ''00''
   \<and> parseClientHello exampleHello = Inr exampleParsed
   \<and> recordsOfType exampleHello 0x0010 (helloExtensions exampleHello) = [68]
   \<and> u16 exampleHello (68 + 4) \<noteq> 0 \<and> u8 exampleHello (68 + 6) = 2
   \<and> u8 exampleHello (68 + 7) = 0x68 \<and> u8 exampleHello (68 + 8) = 0x32
   \<and> alpn exampleParsed = ''h2''
   \<and> parseClientHello opaqueAlpnHello = Inr opaqueAlpnParsed
   \<and> recordsOfType opaqueAlpnHello 0x0010 (helloExtensions opaqueAlpnHello) = [47]
   \<and> alpnFirst opaqueAlpnHello 47 = 0xab \<and> alpnLast opaqueAlpnHello 47 = 0xcd
   \<and> alpnCodeOf opaqueAlpnHello 47 = ''ad''
   \<and> alpn opaqueAlpnParsed = ''ad''"
proof -
  have l: "recordsOfType legacyHello 0x0010 (helloExtensions legacyHello) = []"
    by (simp add: wire_eval legacyHello_def)
  have e: "recordsOfType exampleHello 0x0010 (helloExtensions exampleHello) = [68]"
    "u16 exampleHello (68 + 4) \<noteq> 0" "u8 exampleHello (68 + 6) = 2"
    "u8 exampleHello (68 + 7) = 0x68" "u8 exampleHello (68 + 8) = 0x32"
    by (simp_all add: wire_eval exampleHello_def)
  have p: "recordsOfType opaqueAlpnHello 0x0010 (helloExtensions opaqueAlpnHello) = [47]"
    "alpnFirst opaqueAlpnHello 47 = 0xab" "alpnLast opaqueAlpnHello 47 = 0xcd"
    by (simp_all add: wire_eval alpnFirst_def alpnLast_def opaqueAlpnHello_def)
  have c: "alpnCodeOf opaqueAlpnHello 47 = ''ad''"
    by (simp add: alpnCodeOf_def p hexDigit_def) (simp add: u8_def u16_def opaqueAlpnHello_def)
  have 1: "alpn legacyParsed = ''00''"
    using alpn_code [OF parse_legacyHello] l by blast
  have 2: "alpn exampleParsed = ''h2''"
    using alpn_code [OF parse_exampleHello] e by blast
  have 3: "alpn opaqueAlpnParsed = ''ad''"
    using alpn_code [OF parse_opaqueAlpnHello, THEN conjunct2, THEN conjunct2] p(1) c by simp
  from l e p c 1 2 3 parse_legacyHello parse_exampleHello parse_opaqueAlpnHello
  show ?thesis by simp
qed

subsection \<open>Reads outside the buffer\<close>

lemma getUint8_Inl: "getUint8 buf i = Inl e \<Longrightarrow> e = RangeError"
  by (simp add: getUint8_def split: if_splits)

lemma getUint16_Inl: "getUint16 buf i = Inl e \<Longrightarrow> e = RangeError"
  by (simp add: getUint16_def split: if_splits)

lemma greaseLoop_Inl: "greaseLoop f buf start len i acc = Inl e \<Longrightarrow> e = RangeError"
proof (induction f buf start len i acc rule: greaseLoop.induct)
  case (1 f buf start len i acc)
  show ?case
  proof (cases "i < len")
    case False
    with "1.prems" show ?thesis by (simp add: greaseLoop.simps)
  next
    case True
    show ?thesis
    proof (cases "getUint16 buf (start + i)")
      case (Inl e')
      with True "1.prems" show ?thesis
        by (simp add: greaseLoop.simps [of f buf start len i acc] getUint16_Inl)
    next
      case (Inr v)
      with True "1.prems" have "greaseLoop f buf start len (i + 2)
          (if v \<notin> GREASE_VALUES then acc @ [f v] else acc) = Inl e"
        by (simp add: greaseLoop.simps [of f buf start len i acc])
      with "1.IH" [OF True Inr] show ?thesis by simp
    qed
  qed
qed

lemma alpnExtension_Inl: "alpnExtension buf p a0 = Inl e \<Longrightarrow> e = RangeError"
  by (auto simp: alpnExtension_def Let_def bindE_eq_Inl
           dest: getUint8_Inl getUint16_Inl split: if_splits)

lemma processExtension_Inl: "processExtension buf p t st = Inl e \<Longrightarrow> e = RangeError"
  by (auto simp: processExtension_def Let_def bindE_eq_Inl
           dest: getUint8_Inl getUint16_Inl greaseLoop_Inl alpnExtension_Inl split: if_splits)

lemma extensionsLoop_Inl: "extensionsLoop buf e cur st = Inl err \<Longrightarrow> err = RangeError"
proof (induction buf e cur st rule: extensionsLoop.induct)
  case (1 buf extensionsEndIndex currentIndex st)
  then show ?case
    by (subst (asm) (2) extensionsLoop.simps)
       (auto dest: getUint16_Inl processExtension_Inl split: if_splits sum.splits)
qed

lemma parseClientHello_Inl: "parseClientHello buf = Inl e \<Longrightarrow> e = RangeError"
  by (auto simp: parseClientHello_def Let_def bindE_eq_Inl
           dest: getUint8_Inl getUint16_Inl greaseLoop_Inl extensionsLoop_Inl)

lemma extensionsLoop_headers:
  assumes "extensionsLoop buf e cur st = Inr st'"
  shows "\<forall>r \<in> set (extensionRecords buf e cur). r + 4 \<le> length buf"
  using assms
proof (induction cur st rule: extensionsLoop_induct)
  case (stop cur)
  then show ?case by (simp add: extensionRecords_stop)
next
  case (iter cur st st1)
  then show ?case by (simp add: extensionRecords_iter)
qed

lemma getUint8_inBuffer: "(\<exists>v. getUint8 buf i = Inr v) \<longleftrightarrow> inBuffer buf i 1"
  by (auto simp: getUint8_def inBuffer_def)

lemma getUint16_inBuffer: "(\<exists>v. getUint16 buf i = Inr v) \<longleftrightarrow> inBuffer buf i 2"
  by (auto simp: getUint16_def inBuffer_def)

lemma getUint8_ok: "inBuffer buf i 1 \<Longrightarrow> getUint8 buf i = Inr (u8 buf i)"
  by (simp add: getUint8_def inBuffer_def u8_def)

lemma getUint16_ok: "inBuffer buf i 2 \<Longrightarrow> getUint16 buf i = Inr (u16 buf i)"
  by (simp add: getUint16_def inBuffer_def u16_def)

lemma valuesInBuffer_rec:
  "valuesInBuffer buf s n \<longleftrightarrow> (0 < n \<longrightarrow> inBuffer buf s 2 \<and> valuesInBuffer buf (s + 2) (n - 2))"
proof (cases "0 < n")
  case False
  then show ?thesis by (simp add: valuesInBuffer_def)
next
  case True
  then have h: "(n + 1) div 2 = Suc ((n - 2 + 1) div 2)"
    by arith
  have "(\<forall>k < Suc m. P k) \<longleftrightarrow> P 0 \<and> (\<forall>k < m. P (Suc k))" for m and P :: "nat \<Rightarrow> bool"
    by (metis less_Suc_eq_0_disj)
  then show ?thesis
    using True unfolding valuesInBuffer_def h by (simp add: ac_simps)
qed

lemma greaseLoop_succeeds:
  "(\<exists>r. greaseLoop f buf start len i acc = Inr r) \<longleftrightarrow> valuesInBuffer buf (start + i) (len - i)"
proof (induction f buf start len i acc rule: greaseLoop.induct)
  case (1 f buf start len i acc)
  show ?case
  proof (cases "i < len")
    case False
    then show ?thesis
      by (simp add: greaseLoop.simps [of f buf start len i acc] valuesInBuffer_rec [of buf "start + i"])
  next
    case True
    show ?thesis
    proof (cases "inBuffer buf (start + i) 2")
      case False
      then have "getUint16 buf (start + i) = Inl RangeError"
        by (simp add: getUint16_def inBuffer_def)
      with True False show ?thesis
        by (simp add: greaseLoop.simps [of f buf start len i acc]
              valuesInBuffer_rec [of buf "start + i"])
    next
      case inb: True
      then have g: "getUint16 buf (start + i) = Inr (u16 buf (start + i))"
        by (rule getUint16_ok)
      from "1.IH" [OF True g]
      have "(\<exists>r. greaseLoop f buf start len (i + 2)
                  (if u16 buf (start + i) \<notin> GREASE_VALUES then acc @ [f (u16 buf (start + i))]
                   else acc) = Inr r)
            \<longleftrightarrow> valuesInBuffer buf (start + (i + 2)) (len - (i + 2))" .
      with True inb g show ?thesis
        by (simp add: greaseLoop.simps [of f buf start len i acc]
              valuesInBuffer_rec [of buf "start + i"] add.assoc)
    qed
  qed
qed

lemma alpnExtension_succeeds:
  "(\<exists>a. alpnExtension buf (r + 4) a0 = Inr a) \<longleftrightarrow> alpnInBuffer buf r"
proof (cases "inBuffer buf (r + 4) 2")
  case False
  then have "getUint16 buf (r + 4) = Inl RangeError"
    by (simp add: getUint16_def inBuffer_def)
  with False show ?thesis
    by (simp add: alpnExtension_def alpnInBuffer_def)
next
  case l: True
  note gl = getUint16_ok [OF l]
  show ?thesis
  proof (cases "u16 buf (r + 4) = 0")
    case True
    with l gl show ?thesis
      by (simp add: alpnExtension_def alpnInBuffer_def Let_def)
  next
    case n: False
    show ?thesis
    proof (cases "inBuffer buf (r + 6) 1")
      case False
      then have "getUint8 buf (r + 6) = Inl RangeError"
        by (simp add: getUint8_def inBuffer_def)
      with False l gl n show ?thesis
        by (simp add: alpnExtension_def alpnInBuffer_def Let_def numeral_first)
    next
      case p: True
      note gp = getUint8_ok [OF p]
      show ?thesis
      proof (cases "u8 buf (r + 6) = 0")
        case True
        with l gl n p gp show ?thesis
          by (simp add: alpnExtension_def alpnInBuffer_def Let_def numeral_first)
      next
        case q: False
        show ?thesis
        proof (cases "getUint8 buf (r + 7)")
          case (Inl x)
          then have "\<not> inBuffer buf (r + 7) 1"
            using getUint8_inBuffer [of buf "r + 7"] by auto
          with Inl l gl n p gp q show ?thesis
            by (auto simp: alpnExtension_def alpnInBuffer_def Let_def numeral_first)
        next
          case f: (Inr v)
          then have fb: "inBuffer buf (r + 7) 1"
            using getUint8_inBuffer [of buf "r + 7"] by auto
          show ?thesis
          proof (cases "getUint8 buf (r + 7 + u8 buf (r + 6) - 1)")
            case (Inl x)
            then have "\<not> inBuffer buf (r + 7 + u8 buf (r + 6) - 1) 1"
              using getUint8_inBuffer [of buf "r + 7 + u8 buf (r + 6) - 1"] by auto
            with Inl f l gl n p gp q show ?thesis
              by (auto simp: alpnExtension_def alpnInBuffer_def Let_def numeral_first)
          next
            case e: (Inr w)
            then have eb: "inBuffer buf (r + 7 + u8 buf (r + 6) - 1) 1"
              using getUint8_inBuffer [of buf "r + 7 + u8 buf (r + 6) - 1"] by auto
            have "\<exists>a. alpnExtension buf (r + 4) a0 = Inr a"
              using e f l gl n p gp q
              by (cases "isPrintableAscii v \<and> isPrintableAscii w")
                 (auto simp: alpnExtension_def Let_def numeral_first)
            with l n p q fb eb show ?thesis
              by (simp add: alpnInBuffer_def)
          qed
        qed
      qed
    qed
  qed
qed

lemma processExtension_succeeds:
  "(\<exists>st'. processExtension buf (r + 4) (u16 buf r) st = Inr st') \<longleftrightarrow>
     (u16 buf r = 0x0010 \<longrightarrow> alpnInBuffer buf r)
     \<and> (u16 buf r = 0x002b \<longrightarrow> supportedVersionsInBuffer buf r)
     \<and> (u16 buf r = 0x000d \<longrightarrow> signatureAlgorithmsInBuffer buf r)"
proof -
  consider (grease) "u16 buf r \<in> GREASE_VALUES" | (sni) "u16 buf r = 0"
    | (alpn) "u16 buf r = 16" | (vers) "u16 buf r = 43" | (sig) "u16 buf r = 13"
    | (other) "u16 buf r \<notin> GREASE_VALUES" "u16 buf r \<noteq> 0" "u16 buf r \<noteq> 16"
        "u16 buf r \<noteq> 43" "u16 buf r \<noteq> 13"
    by blast
  then show ?thesis
  proof cases
    case grease
    then have "u16 buf r \<noteq> 16" "u16 buf r \<noteq> 43" "u16 buf r \<noteq> 13"
      using not_grease_known by auto
    with grease show ?thesis by (simp add: processExtension_def)
  next
    case sni
    then show ?thesis by (simp add: processExtension_def not_grease_known Let_def)
  next
    case alpn
    have "(\<exists>st'. processExtension buf (r + 4) (u16 buf r) st = Inr st')
            \<longleftrightarrow> (\<exists>a. alpnExtension buf (r + 4) (alpn st) = Inr a)"
      using alpn by (auto simp: processExtension_def not_grease_known Let_def bindE_eq_Inr)
    with alpn show ?thesis by (simp add: alpnExtension_succeeds)
  next
    case vers
    show ?thesis
    proof (cases "inBuffer buf (r + 4) 1")
      case False
      then have "getUint8 buf (r + 4) = Inl RangeError"
        by (simp add: getUint8_def inBuffer_def)
      with False vers show ?thesis
        by (simp add: processExtension_def not_grease_known Let_def supportedVersionsInBuffer_def)
    next
      case True
      note g = getUint8_ok [OF True]
      have "(\<exists>st'. processExtension buf (r + 4) (u16 buf r) st = Inr st')
              \<longleftrightarrow> (\<exists>vs. greaseLoop (\<lambda>version. version) buf (r + 4 + 1) (u8 buf (r + 4)) 0
                          (supportedVersions st) = Inr vs)"
        using vers g by (auto simp: processExtension_def not_grease_known Let_def bindE_eq_Inr)
      with True vers show ?thesis
        by (simp add: greaseLoop_succeeds supportedVersionsInBuffer_def numeral_first)
    qed
  next
    case sig
    show ?thesis
    proof (cases "inBuffer buf (r + 4) 2")
      case False
      then have "getUint16 buf (r + 4) = Inl RangeError"
        by (simp add: getUint16_def inBuffer_def)
      with False sig show ?thesis
        by (simp add: processExtension_def not_grease_known Let_def signatureAlgorithmsInBuffer_def)
    next
      case True
      note g = getUint16_ok [OF True]
      have "(\<exists>st'. processExtension buf (r + 4) (u16 buf r) st = Inr st')
              \<longleftrightarrow> (\<exists>vs. greaseLoop hex4 buf (r + 4 + 2) (u16 buf (r + 4)) 0
                          (signatureAlgorithms st) = Inr vs)"
        using sig g by (auto simp: processExtension_def not_grease_known Let_def bindE_eq_Inr)
      with True sig show ?thesis
        by (simp add: greaseLoop_succeeds signatureAlgorithmsInBuffer_def numeral_first)
    qed
  next
    case other
    then show ?thesis by (simp add: processExtension_def Let_def)
  qed
qed

lemma extensionsLoop_succeeds:
  "(\<exists>st'. extensionsLoop buf e cur st = Inr st') \<longleftrightarrow>
     (\<forall>r \<in> set (extensionRecords buf e cur). recordInBuffer buf r)"
proof (induction buf e cur st rule: extensionsLoop.induct)
  case (1 buf extensionsEndIndex currentIndex st)
  show ?case
  proof (cases "currentIndex < extensionsEndIndex")
    case False
    then show ?thesis
      by (simp add: extensionsLoop.simps [of buf extensionsEndIndex currentIndex st]
            extensionRecords_stop)
  next
    case True
    note recs = extensionRecords_iter [OF True, of buf]
    note unf = extensionsLoop.simps [of buf extensionsEndIndex currentIndex st]
    show ?thesis
    proof (cases "inBuffer buf currentIndex 2 \<and> inBuffer buf (currentIndex + 2) 2")
      case False
      then have "getUint16 buf currentIndex = Inl RangeError
                 \<or> getUint16 buf (currentIndex + 2) = Inl RangeError"
        by (auto simp: getUint16_def inBuffer_def)
      then have "\<not> (\<exists>st'. extensionsLoop buf extensionsEndIndex currentIndex st = Inr st')"
        using True by (auto simp: unf split: sum.splits)
      with False show ?thesis
        by (auto simp: recs recordInBuffer_def)
    next
      case hdr: True
      then have t: "getUint16 buf currentIndex = Inr (u16 buf currentIndex)"
        and l: "getUint16 buf (currentIndex + 2) = Inr (u16 buf (currentIndex + 2))"
        by (simp_all add: getUint16_ok)
      show ?thesis
      proof (cases "processExtension buf (currentIndex + 4) (u16 buf currentIndex) st")
        case (Inl err)
        then have "\<not> (\<exists>st'. processExtension buf (currentIndex + 4) (u16 buf currentIndex) st = Inr st')"
          by simp
        then have "\<not> ((u16 buf currentIndex = 0x0010 \<longrightarrow> alpnInBuffer buf currentIndex)
             \<and> (u16 buf currentIndex = 0x002b \<longrightarrow> supportedVersionsInBuffer buf currentIndex)
             \<and> (u16 buf currentIndex = 0x000d \<longrightarrow> signatureAlgorithmsInBuffer buf currentIndex))"
          unfolding processExtension_succeeds .
        then have "\<not> recordInBuffer buf currentIndex"
          by (simp add: recordInBuffer_def)
        moreover have "\<not> (\<exists>st'. extensionsLoop buf extensionsEndIndex currentIndex st = Inr st')"
          using True t l Inl by (simp add: unf)
        ultimately show ?thesis
          by (simp add: recs)
      next
        case (Inr st1)
        then have "\<exists>st'. processExtension buf (currentIndex + 4) (u16 buf currentIndex) st = Inr st'"
          by simp
        then have "(u16 buf currentIndex = 0x0010 \<longrightarrow> alpnInBuffer buf currentIndex)
             \<and> (u16 buf currentIndex = 0x002b \<longrightarrow> supportedVersionsInBuffer buf currentIndex)
             \<and> (u16 buf currentIndex = 0x000d \<longrightarrow> signatureAlgorithmsInBuffer buf currentIndex)"
          unfolding processExtension_succeeds .
        with hdr have rec: "recordInBuffer buf currentIndex"
          by (simp add: recordInBuffer_def)
        from "1.IH" [OF True t l Inr]
        have "(\<exists>st'. extensionsLoop buf extensionsEndIndex
                       (currentIndex + 4 + u16 buf (currentIndex + 2)) st1 = Inr st')
              \<longleftrightarrow> (\<forall>r \<in> set (extensionRecords buf extensionsEndIndex
                                   (currentIndex + 4 + u16 buf (currentIndex + 2))).
                     recordInBuffer buf r)" .
        with True t l Inr rec show ?thesis
          by (simp add: unf recs)
      qed
    qed
  qed
qed

lemma parse_overshootHello: "parseClientHello overshootHello = Inr overshootParsed"
  by (simp add: overshootHello_def overshootParsed_def parser_eval cong: bindE_weak_cong)

lemma truncatedHash_1301: "truncatedHash sha256_digest ''1301'' = Inr ''0f2cb44170f4''"
  by code_simp

lemma truncatedHash_0017: "truncatedHash sha256_digest ''0017'' = Inr ''1ca028f07214''"
  by code_simp

lemma parseClientHello_succeeds: "(\<exists>st. parseClientHello buf = Inr st) \<longleftrightarrow> readsInBuffer buf"
proof
  assume "\<exists>st. parseClientHello buf = Inr st"
  then obtain st where st: "parseClientHello buf = Inr st" ..
  then obtain v sid csl cs cml el where
    v: "getUint16 buf 4 = Inr v" and
    sid: "getUint8 buf 38 = Inr sid" and
    csl: "getUint16 buf (39 + sid) = Inr csl" and
    cs: "greaseLoop hex4 buf (41 + sid) csl 0 [] = Inr cs" and
    cml: "getUint8 buf (41 + sid + csl) = Inr cml" and
    el: "getUint16 buf (42 + sid + csl + cml) = Inr el"
    by (auto simp: parseClientHello_def Let_def bindE_eq_Inr ac_simps)
  have sid': "sid = sessionIdLength buf"
    using getUint8_u8 [OF sid] by (simp add: sessionIdLength_def)
  have csl': "csl = cipherSuitesLength buf"
    using getUint16_u16 [OF csl] by (simp add: cipherSuitesLength_def sid')
  have cml': "cml = compressionMethodsLength buf"
    using getUint8_u8 [OF cml]
    by (simp add: compressionMethodsLength_def cipherSuitesStart_def sid' csl')
  have 1: "inBuffer buf 4 2" using v getUint16_inBuffer by blast
  have 2: "inBuffer buf 38 1" using sid getUint8_inBuffer by blast
  have 3: "inBuffer buf (39 + sessionIdLength buf) 2"
    using csl getUint16_inBuffer unfolding sid' by blast
  have 4: "valuesInBuffer buf (cipherSuitesStart buf) (cipherSuitesLength buf)"
    using cs greaseLoop_succeeds [of hex4 buf "41 + sid" csl 0 "[]"]
    by (auto simp: cipherSuitesStart_def sid' csl')
  have 5: "inBuffer buf (cipherSuitesStart buf + cipherSuitesLength buf) 1"
    using cml getUint8_inBuffer unfolding sid' csl' cipherSuitesStart_def by blast
  have "inBuffer buf (42 + sid + csl + cml) 2"
    using el getUint16_inBuffer by blast
  then have 6: "inBuffer buf (extensionsStart buf - 2) 2"
    by (simp add: extensionsStart_def cipherSuitesStart_def sid' csl' cml' ac_simps)
  have 7: "\<forall>r \<in> set (helloExtensions buf). recordInBuffer buf r"
    using parseClientHello_Inr(1) [OF st] extensionsLoop_succeeds
    unfolding helloExtensions_def by blast
  from 1 2 3 4 5 6 7 show "readsInBuffer buf"
    by (simp add: readsInBuffer_def)
next
  assume r: "readsInBuffer buf"
  let ?sid = "sessionIdLength buf" and ?csl = "cipherSuitesLength buf"
  let ?cml = "compressionMethodsLength buf" and ?el = "extensionsLength buf"
  from r have v: "getUint16 buf 4 = Inr (u16 buf 4)"
    by (simp add: readsInBuffer_def getUint16_ok)
  from r have sid: "getUint8 buf 38 = Inr ?sid"
    by (simp add: readsInBuffer_def getUint8_ok sessionIdLength_def)
  from r have csl: "getUint16 buf (39 + ?sid) = Inr ?csl"
    by (simp add: readsInBuffer_def getUint16_ok cipherSuitesLength_def)
  from r have "valuesInBuffer buf (41 + ?sid + 0) (?csl - 0)"
    by (simp add: readsInBuffer_def cipherSuitesStart_def)
  then obtain cs where cs: "greaseLoop hex4 buf (41 + ?sid) ?csl 0 [] = Inr cs"
    using greaseLoop_succeeds [of hex4 buf "41 + ?sid" ?csl 0 "[]"] by blast
  from r have cml: "getUint8 buf (41 + ?sid + ?csl) = Inr ?cml"
    by (simp add: readsInBuffer_def getUint8_ok compressionMethodsLength_def cipherSuitesStart_def)
  have start: "extensionsStart buf = 44 + ?sid + ?csl + ?cml"
    by (simp add: extensionsStart_def cipherSuitesStart_def)
  from r have "inBuffer buf (42 + ?sid + ?csl + ?cml) 2"
    by (simp add: readsInBuffer_def start ac_simps)
  then have el: "getUint16 buf (42 + ?sid + ?csl + ?cml) = Inr ?el"
    by (simp add: getUint16_ok extensionsLength_def cipherSuitesStart_def ac_simps)
  from r have "\<forall>r \<in> set (extensionRecords buf (44 + ?sid + ?csl + ?cml + ?el) (44 + ?sid + ?csl + ?cml)).
      recordInBuffer buf r"
    by (simp add: readsInBuffer_def helloExtensions_def extensionsEnd_def start)
  then have "\<exists>st. extensionsLoop buf (44 + ?sid + ?csl + ?cml + ?el) (44 + ?sid + ?csl + ?cml)
       \<lparr>tlsMappedVersion = mapVersion (''0x'' @ hex4 (u16 buf 4)), cipherSuites = cs,
        extensionsList = [], sni = ''i'', alpn = ''00'',
        signatureAlgorithms = [], supportedVersions = []\<rparr> = Inr st"
    by (simp only: extensionsLoop_succeeds)
  then obtain st where "extensionsLoop buf (44 + ?sid + ?csl + ?cml + ?el) (44 + ?sid + ?csl + ?cml)
       \<lparr>tlsMappedVersion = mapVersion (''0x'' @ hex4 (u16 buf 4)), cipherSuites = cs,
        extensionsList = [], sni = ''i'', alpn = ''00'',
        signatureAlgorithms = [], supportedVersions = []\<rparr> = Inr st" ..
  with v sid csl cs cml el have "parseClientHello buf = Inr st"
    by (simp add: parseClientHello_def Let_def ac_simps)
  then show "\<exists>st. parseClientHello buf = Inr st" ..
qed

text \<open>
  C1, as the code has it: every read goes through a DataView accessor, which checks the
  offset against the whole buffer.  The parser succeeds exactly when all its reads lie
  inside the buffer (\<open>readsInBuffer\<close>: the version, the session-id, cipher-suites,
  compression-methods and extensions lengths, every cipher suite, the type and length of
  every extension record, and in an ALPN, supported-versions or signature-algorithms record
  the list length, the protocol length with the first and last byte, and every value); when
  one does not, it fails with a RangeError, which is its only error, and
  \<open>getJA4Fingerprint\<close> passes the error on instead of a fingerprint.  In particular a
  buffer of fewer than 44 bytes is refused.  A length field is not checked otherwise.
\<close>

theorem reads_inside_buffer:
  "((\<exists>st. parseClientHello buf = Inr st) \<longleftrightarrow> readsInBuffer buf)
   \<and> (\<not> readsInBuffer buf \<longrightarrow>
        parseClientHello buf = Inl RangeError
        \<and> getJA4Fingerprint digest buf proto = Inl RangeError)
   \<and> (parseClientHello buf = Inr st \<longrightarrow>
      44 + sessionIdLength buf + cipherSuitesLength buf + compressionMethodsLength buf \<le> length buf
      \<and> (\<forall>r \<in> set (helloExtensions buf). r + 4 \<le> length buf))
   \<and> (length buf < 44 \<longrightarrow> parseClientHello buf = Inl RangeError)
   \<and> (parseClientHello buf = Inl e \<longrightarrow>
        e = RangeError \<and> getJA4Fingerprint digest buf proto = Inl RangeError)"
proof -
  have start: "extensionsStart buf =
      44 + sessionIdLength buf + cipherSuitesLength buf + compressionMethodsLength buf"
    by (simp add: extensionsStart_def cipherSuitesStart_def)
  have ok: "44 + sessionIdLength buf + cipherSuitesLength buf + compressionMethodsLength buf
              \<le> length buf \<and> (\<forall>r \<in> set (helloExtensions buf). r + 4 \<le> length buf)"
    if "parseClientHello buf = Inr st'" for st'
    using parseClientHello_Inr(2) [OF that] extensionsLoop_headers [OF parseClientHello_Inr(1) [OF that]]
    by (simp add: start helloExtensions_def)
  have err: "e' = RangeError \<and> getJA4Fingerprint digest buf proto = Inl RangeError"
    if "parseClientHello buf = Inl e'" for e'
    using that parseClientHello_Inl [OF that] by (simp add: getJA4Fingerprint_def)
  have out: "parseClientHello buf = Inl RangeError
             \<and> getJA4Fingerprint digest buf proto = Inl RangeError" if "\<not> readsInBuffer buf"
  proof (cases "parseClientHello buf")
    case (Inl e')
    with err [OF Inl] show ?thesis by simp
  next
    case (Inr st')
    with that parseClientHello_succeeds [of buf] show ?thesis by blast
  qed
  have short: "parseClientHello buf = Inl RangeError" if "length buf < 44"
  proof (cases "parseClientHello buf")
    case (Inl e')
    then show ?thesis using parseClientHello_Inl by blast
  next
    case (Inr st')
    from ok [OF Inr] that show ?thesis by simp
  qed
  from parseClientHello_succeeds [of buf] ok out short err show ?thesis by blast
qed

lemma parse_cutAlpnHello: "parseClientHello cutAlpnHello = Inl RangeError"
  by (simp add: cutAlpnHello_def parser_eval cong: bindE_weak_cong)

lemma parse_cutAlgorithmsHello: "parseClientHello cutAlgorithmsHello = Inl RangeError"
  by (simp add: cutAlgorithmsHello_def parser_eval cong: bindE_weak_cong)

theorem reads_inside_buffer_witness:
  "parseClientHello exampleHello = Inr exampleParsed
   \<and> readsInBuffer exampleHello
   \<and> 44 + sessionIdLength exampleHello + cipherSuitesLength exampleHello
        + compressionMethodsLength exampleHello = 51
   \<and> helloExtensions exampleHello = [51, 55, 68, 77, 88, 98]
   \<and> length exampleHello = 102
   \<and> length (take 43 exampleHello) < 44
   \<and> parseClientHello (take 43 exampleHello) = Inl RangeError
   \<and> getJA4Fingerprint sha256_digest (take 43 exampleHello) ''tcp'' = Inl RangeError
   \<and> length cutAlpnHello = 55 \<and> helloExtensions cutAlpnHello = [47]
   \<and> u16 cutAlpnHello 47 = 0x0010 \<and> u8 cutAlpnHello (47 + 6) = 2
   \<and> \<not> inBuffer cutAlpnHello (47 + 7 + u8 cutAlpnHello (47 + 6) - 1) 1
   \<and> \<not> readsInBuffer cutAlpnHello
   \<and> parseClientHello cutAlpnHello = Inl RangeError
   \<and> getJA4Fingerprint sha256_digest cutAlpnHello ''tcp'' = Inl RangeError
   \<and> length cutAlgorithmsHello = 56 \<and> helloExtensions cutAlgorithmsHello = [47]
   \<and> u16 cutAlgorithmsHello 47 = 0x000d \<and> u16 cutAlgorithmsHello (47 + 4) = 4
   \<and> \<not> inBuffer cutAlgorithmsHello (47 + 6 + 2 * 1) 2
   \<and> \<not> readsInBuffer cutAlgorithmsHello
   \<and> parseClientHello cutAlgorithmsHello = Inl RangeError
   \<and> getJA4Fingerprint sha256_digest cutAlgorithmsHello ''tcp'' = Inl RangeError"
proof -
  have w: "44 + sessionIdLength exampleHello + cipherSuitesLength exampleHello
        + compressionMethodsLength exampleHello = 51"
    "helloExtensions exampleHello = [51, 55, 68, 77, 88, 98]"
    "length exampleHello = 102"
    by (simp_all add: wire_eval exampleHello_def)
  have r: "readsInBuffer exampleHello"
    using reads_inside_buffer [of exampleHello sha256_digest "''tcp''" exampleParsed RangeError]
      parse_exampleHello by blast
  have s: "length (take 43 exampleHello) < 44"
    by simp
  with reads_inside_buffer [of "take 43 exampleHello" sha256_digest "''tcp''" exampleParsed RangeError]
  have t: "parseClientHello (take 43 exampleHello) = Inl RangeError"
    "getJA4Fingerprint sha256_digest (take 43 exampleHello) ''tcp'' = Inl RangeError"
    by blast+
  have a: "length cutAlpnHello = 55" "helloExtensions cutAlpnHello = [47]"
    "u16 cutAlpnHello 47 = 0x0010" "u8 cutAlpnHello (47 + 6) = 2"
    "\<not> inBuffer cutAlpnHello (47 + 7 + u8 cutAlpnHello (47 + 6) - 1) 1"
    by (simp_all add: wire_eval inBuffer_def cutAlpnHello_def)
  have "u16 cutAlpnHello (47 + 4) \<noteq> 0"
    by (simp add: wire_eval cutAlpnHello_def)
  with a have "\<not> recordInBuffer cutAlpnHello 47"
    by (simp add: recordInBuffer_def alpnInBuffer_def)
  with a(2) have na: "\<not> readsInBuffer cutAlpnHello"
    by (simp add: readsInBuffer_def)
  with reads_inside_buffer [of cutAlpnHello sha256_digest "''tcp''" exampleParsed RangeError]
  have ea: "parseClientHello cutAlpnHello = Inl RangeError"
    "getJA4Fingerprint sha256_digest cutAlpnHello ''tcp'' = Inl RangeError"
    by blast+
  have g: "length cutAlgorithmsHello = 56" "helloExtensions cutAlgorithmsHello = [47]"
    "u16 cutAlgorithmsHello 47 = 0x000d" "u16 cutAlgorithmsHello (47 + 4) = 4"
    "\<not> inBuffer cutAlgorithmsHello (47 + 6 + 2 * 1) 2"
    by (simp_all add: wire_eval inBuffer_def cutAlgorithmsHello_def)
  have "\<not> valuesInBuffer cutAlgorithmsHello (47 + 6) 4"
    unfolding valuesInBuffer_def using g(5) by (auto intro: exI [of _ 1])
  with g have "\<not> recordInBuffer cutAlgorithmsHello 47"
    by (simp add: recordInBuffer_def signatureAlgorithmsInBuffer_def)
  with g(2) have ng: "\<not> readsInBuffer cutAlgorithmsHello"
    by (simp add: readsInBuffer_def)
  with reads_inside_buffer [of cutAlgorithmsHello sha256_digest "''tcp''" exampleParsed RangeError]
  have eg: "parseClientHello cutAlgorithmsHello = Inl RangeError"
    "getJA4Fingerprint sha256_digest cutAlgorithmsHello ''tcp'' = Inl RangeError"
    by blast+
  from w r s t a na ea g ng eg parse_exampleHello show ?thesis by simp
qed

text \<open>
  The claim C1 as written fails: the length field of the only extension record of
  \<open>overshootHello\<close> reaches far past the end of the buffer, and the fingerprint is computed.
\<close>

theorem malformed_length_counterexample:
  "length overshootHello = 51
   \<and> helloExtensions overshootHello = [47]
   \<and> u16 overshootHello (47 + 2) = 65535
   \<and> parseClientHello overshootHello = Inr overshootParsed
   \<and> getJA4Fingerprint sha256_digest overshootHello ''tcp'' =
       Inr ''t12i010100_0f2cb44170f4_1ca028f07214''"
proof -
  have w: "length overshootHello = 51" "helloExtensions overshootHello = [47]"
    "u16 overshootHello (47 + 2) = 65535"
    by (simp_all add: wire_eval overshootHello_def)
  have a: "ja4Base ''tcp'' overshootParsed = ''t12i010100''"
    by (simp add: ja4Base_def ptype_def versionCode_def numCiphers_def numExtensions_def
          overshootParsed_def toString10.simps padStart_def hexDigit_def replicate_numeral)
  have b: "ja4CipherHash sha256_digest overshootParsed = Inr ''0f2cb44170f4''"
    using truncatedHash_1301
    by (simp add: ja4CipherHash_def cipherSuitesString_def overshootParsed_def)
  have c: "ja4ExtensionHash sha256_digest overshootParsed = Inr ''1ca028f07214''"
    using truncatedHash_0017
    by (simp add: ja4ExtensionHash_def extensionHashInput_def hashExtensions_def
          overshootParsed_def)
  from w a b c parse_overshootHello show ?thesis
    by (simp add: getJA4Fingerprint_parsed [OF parse_overshootHello])
qed

subsection \<open>The orchestrator\<close>






text \<open>
  C9: when the variable with the ClientHello is not set or is the empty string, the
  orchestrator returns \<^verbatim>\<open>undefined\<close>, raises nothing and leaves the request as it
  is, whatever the decoder and the digest would do: neither is called.
\<close>

theorem no_client_hello:
  assumes "getVariable request ''PMUSER_TLS_CLIENT_HELLO'' = None
           \<or> getVariable request ''PMUSER_TLS_CLIENT_HELLO'' = Some []"
  shows "onClientRequest atob digest request = (Inr None, request)"
  using assms by (auto simp: onClientRequest_def truthy_def Let_def)

theorem no_client_hello_witness:
  "getVariable Map.empty ''PMUSER_TLS_CLIENT_HELLO'' = None
   \<and> onClientRequest (\<lambda>s. Inl InvalidCharacterError) (\<lambda>bs. Inl OperationError) Map.empty
       = (Inr None, Map.empty)
   \<and> getVariable [''PMUSER_TLS_CLIENT_HELLO'' \<mapsto> []] ''PMUSER_TLS_CLIENT_HELLO'' = Some []
   \<and> onClientRequest atob_std sha256_digest [''PMUSER_TLS_CLIENT_HELLO'' \<mapsto> []]
       = (Inr None, [''PMUSER_TLS_CLIENT_HELLO'' \<mapsto> []])"
proof -
  have a: "getVariable Map.empty ''PMUSER_TLS_CLIENT_HELLO'' = None"
    and b: "getVariable [''PMUSER_TLS_CLIENT_HELLO'' \<mapsto> []] ''PMUSER_TLS_CLIENT_HELLO'' = Some []"
    by (simp_all add: getVariable_def)
  from a have "onClientRequest (\<lambda>s. Inl InvalidCharacterError) (\<lambda>bs. Inl OperationError) Map.empty
       = (Inr None, Map.empty)"
    by (intro no_client_hello) simp
  moreover from b have "onClientRequest atob_std sha256_digest [''PMUSER_TLS_CLIENT_HELLO'' \<mapsto> []]
       = (Inr None, [''PMUSER_TLS_CLIENT_HELLO'' \<mapsto> []])"
    by (intro no_client_hello) simp
  ultimately show ?thesis using a b by simp
qed




end
